theory Spec2Isabelle
  imports Main "HOL-Library.Word"
begin

unbundle bit_operations_syntax

section \<open>Values of the host language\<close>

text \<open>
  A Python \<open>str\<close> is a sequence of Unicode code points, a \<open>bytes\<close> value a
  sequence of octets. Python integers are unbounded (\<open>int\<close>); the elements of a
  \<open>ctypes\<close> array are machine words.
\<close>

type_synonym pystr = "nat list"
type_synonym bytes = "8 word list"

definition str :: "string \<Rightarrow> pystr" where
  "str s = map of_char s"

datatype error =
    OSError
  | IndexError
  | UnicodeEncodeError
  | RuntimeError string
  | OtherError string

text \<open>
  \<open>s.encode("utf-8")\<close>: one to four octets per code point; a lone surrogate
  (U+D800 to U+DFFF) raises \<open>UnicodeEncodeError\<close>. Code points above U+10FFFF do not
  occur in a \<open>str\<close>; the model rejects them too.
\<close>

definition utf8_char :: "nat \<Rightarrow> error + bytes" where
  "utf8_char c =
     (if c < 0x80 then Inr [of_nat c]
      else if c < 0x800 then
        Inr [of_nat (0xC0 + c div 64), of_nat (0x80 + c mod 64)]
      else if 0xD800 \<le> c \<and> c \<le> 0xDFFF then Inl UnicodeEncodeError
      else if c < 0x10000 then
        Inr [of_nat (0xE0 + c div 4096), of_nat (0x80 + (c div 64) mod 64),
             of_nat (0x80 + c mod 64)]
      else if c < 0x110000 then
        Inr [of_nat (0xF0 + c div 262144), of_nat (0x80 + (c div 4096) mod 64),
             of_nat (0x80 + (c div 64) mod 64), of_nat (0x80 + c mod 64)]
      else Inl UnicodeEncodeError)"

fun encode_utf8 :: "pystr \<Rightarrow> error + bytes" where
  "encode_utf8 [] = Inr []"
| "encode_utf8 (c # cs) =
     (case utf8_char c of
        Inl e \<Rightarrow> Inl e
      | Inr bs \<Rightarrow> (case encode_utf8 cs of Inl e \<Rightarrow> Inl e | Inr rest \<Rightarrow> Inr (bs @ rest)))"

subsection \<open>The random module\<close>

text \<open>
  The generator behind \<open>random.randint\<close> and \<open>random.choice\<close> is global state of
  the interpreter. It is modelled as a stream of raw draws, one consumed per call;
  \<open>randint a b\<close> maps the draw into \<open>a..b\<close>, \<open>choice\<close> into the positions of the
  sequence.
\<close>

type_synonym rng = "nat \<Rightarrow> nat"

definition rng_next :: "rng \<Rightarrow> nat \<times> rng" where
  "rng_next g = (g 0, \<lambda>n. g (Suc n))"

definition randint :: "int \<Rightarrow> int \<Rightarrow> rng \<Rightarrow> int \<times> rng" where
  "randint a b g = (case rng_next g of (d, g') \<Rightarrow> (a + int d mod (b - a + 1), g'))"

definition choice :: "int list \<Rightarrow> rng \<Rightarrow> int \<times> rng" where
  "choice xs g = (case rng_next g of (d, g') \<Rightarrow> (xs ! (d mod length xs), g'))"

text \<open>\<open>[random.randint(a, b) for _ in range(n)]\<close>\<close>

fun randints :: "nat \<Rightarrow> int \<Rightarrow> int \<Rightarrow> rng \<Rightarrow> int list \<times> rng" where
  "randints 0 a b g = ([], g)"
| "randints (Suc n) a b g =
     (case randint a b g of (v, g1) \<Rightarrow>
        (case randints n a b g1 of (vs, g2) \<Rightarrow> (v # vs, g2)))"

subsection \<open>Images\<close>

text \<open>
  A PIL image of mode RGB: its size (width, height) and its pixels in row-major order.
  \<open>putpixel\<close> and \<open>getpixel\<close> raise \<open>IndexError\<close> outside the image.
\<close>

type_synonym pixel = "int \<times> int \<times> int"

record image =
  im_size :: "nat \<times> nat"
  im_data :: "pixel list"

definition black :: pixel where
  "black = (0, 0, 0)"

definition Image_new :: "nat \<times> nat \<Rightarrow> pixel \<Rightarrow> image" where
  "Image_new sz c = \<lparr>im_size = sz, im_data = replicate (fst sz * snd sz) c\<rparr>"

definition putpixel :: "image \<Rightarrow> nat \<times> nat \<Rightarrow> pixel \<Rightarrow> error + image" where
  "putpixel im xy c =
     (case xy of (x, y) \<Rightarrow>
        if x < fst (im_size im) \<and> y < snd (im_size im)
        then Inr (im\<lparr>im_data := (im_data im)[y * fst (im_size im) + x := c]\<rparr>)
        else Inl IndexError)"

definition getpixel :: "image \<Rightarrow> nat \<times> nat \<Rightarrow> error + pixel" where
  "getpixel im xy =
     (case xy of (x, y) \<Rightarrow>
        if x < fst (im_size im) \<and> y < snd (im_size im)
        then Inr (im_data im ! (y * fst (im_size im) + x))
        else Inl IndexError)"

subsection \<open>Loops\<close>

text \<open>
  \<open>for x in xs: body\<close> over a state, where the body may raise: the first error ends
  the loop.
\<close>

fun for_each :: "'a list \<Rightarrow> ('a \<Rightarrow> 's \<Rightarrow> error + 's) \<Rightarrow> 's \<Rightarrow> error + 's" where
  "for_each [] body s = Inr s"
| "for_each (x # xs) body s =
     (case body x s of Inl e \<Rightarrow> Inl e | Inr s' \<Rightarrow> for_each xs body s')"

section \<open>The synthetic core: class EmulatorCore\<close>

definition FB_W :: nat where
  "FB_W = 256"

definition FB_H :: nat where
  "FB_H = 192"

record core =
  rom_path :: "pystr option"
  running :: bool
  frame :: int
  arm9 :: "int list"
  arm7 :: "int list"
  cpsr9 :: int
  cpsr7 :: int
  fb_top :: image
  fb_bot :: image

text \<open>\<open>EmulatorCore.__init__\<close>\<close>

definition EmulatorCore_init :: core where
  "EmulatorCore_init =
     \<lparr>rom_path = None, running = False, frame = 0,
      arm9 = replicate 16 0, arm7 = replicate 16 0,
      cpsr9 = 0x1F, cpsr7 = 0x1F,
      fb_top = Image_new (FB_W, FB_H) black,
      fb_bot = Image_new (FB_W, FB_H) black\<rparr>"

text \<open>
  The methods are written over \<open>'a core_scheme\<close>, so that a subclass, a record
  extending \<open>core\<close>, inherits them as they are.
\<close>

definition EmulatorCore_load_rom ::
  "'a core_scheme \<Rightarrow> pystr \<Rightarrow> bool \<times> 'a core_scheme" where
  "EmulatorCore_load_rom s path = (True, s\<lparr>rom_path := Some path\<rparr>)"

definition EmulatorCore_reset :: "'a core_scheme \<Rightarrow> 'a core_scheme" where
  "EmulatorCore_reset s = s\<lparr>frame := 0, running := False\<rparr>"

definition get_registers :: "'a core_scheme \<Rightarrow> int list \<times> int list \<times> int \<times> int" where
  "get_registers s = (arm9 s, arm7 s, cpsr9 s, cpsr7 s)"

definition get_framebuffers :: "'a core_scheme \<Rightarrow> image \<times> image" where
  "get_framebuffers s = (fb_top s, fb_bot s)"

definition fake_registers :: "rng \<Rightarrow> 'a core_scheme \<Rightarrow> 'a core_scheme \<times> rng" where
  "fake_registers g s =
     (case randints 16 0 0xFFFFFFFF g of (r9, g1) \<Rightarrow>
      case randints 16 0 0xFFFFFFFF g1 of (r7, g2) \<Rightarrow>
      case choice [0x10, 0x1F, 0x13] g2 of (c9, g3) \<Rightarrow>
      case choice [0x10, 0x1F, 0x13] g3 of (c7, g4) \<Rightarrow>
        (s\<lparr>arm9 := r9, arm7 := r7, cpsr9 := c9, cpsr7 := c7\<rparr>, g4))"

text \<open>The two colours of \<open>_fake_framebuffers\<close> that follow the frame counter.\<close>

definition c1 :: "int \<Rightarrow> pixel" where
  "c1 f = (60 + 10 * (f mod 6), 50, 255)"

definition c2 :: "int \<Rightarrow> pixel" where
  "c2 f = (255, 60 + 7 * (f mod 8), 80)"

text \<open>The body of the inner loop of \<open>_fake_framebuffers\<close>, at column \<open>x\<close> of row \<open>y\<close>.\<close>

definition fake_pixel ::
  "pixel \<Rightarrow> pixel \<Rightarrow> nat \<Rightarrow> nat \<Rightarrow> 'a core_scheme \<Rightarrow> error + 'a core_scheme" where
  "fake_pixel p1 p2 y x s =
     (case putpixel (fb_top s) (x, y) (if (y div 8) mod 2 = 0 then p1 else (42, 54, 84)) of
        Inl e \<Rightarrow> Inl e
      | Inr t \<Rightarrow>
          (case putpixel (fb_bot s) (x, y)
                  (if (y div 8) mod 2 = 0 then p2 else (34, 34, 34)) of
             Inl e \<Rightarrow> Inl e
           | Inr b \<Rightarrow> Inr (s\<lparr>fb_top := t, fb_bot := b\<rparr>)))"

definition fake_framebuffers :: "'a core_scheme \<Rightarrow> error + 'a core_scheme" where
  "fake_framebuffers s =
     for_each [0..<FB_H]
       (\<lambda>y. for_each [0..<FB_W] (fake_pixel (c1 (frame s)) (c2 (frame s)) y)) s"

text \<open>\<open>EmulatorCore.run_frame\<close>\<close>

definition EmulatorCore_run_frame ::
  "rng \<Rightarrow> 'a core_scheme \<Rightarrow> error + ('a core_scheme \<times> rng)" where
  "EmulatorCore_run_frame g s =
     (case fake_registers g (s\<lparr>frame := frame s + 1\<rparr>) of (s1, g1) \<Rightarrow>
        (case fake_framebuffers s1 of Inl e \<Rightarrow> Inl e | Inr s2 \<Rightarrow> Inr (s2, g1)))"

section \<open>The native library\<close>

text \<open>
  The shared library is opaque: a state \<open>'l\<close> that only its entry points read and
  change. A handle returned by \<open>ctypes.CDLL\<close> gives the eight functions of the C API
  that the module's docstring requires of the library. A function with a \<open>dst\<close>
  parameter returns the words it stores at \<open>dst[0]\<close>, \<open>dst[1]\<close>, ...; a result of C
  type \<open>int\<close> is a 32-bit word read as signed. Every entry point is taken to return.
\<close>

record 'l cdll =
  nogba_init :: "'l \<Rightarrow> 32 word \<times> 'l"
  nogba_reset :: "'l \<Rightarrow> 'l"
  nogba_load_rom :: "bytes \<Rightarrow> 'l \<Rightarrow> 32 word \<times> 'l"
  nogba_run_frame :: "'l \<Rightarrow> 'l"
  nogba_get_arm9_regs :: "'l \<Rightarrow> 32 word list \<times> 'l"
  nogba_get_arm7_regs :: "'l \<Rightarrow> 32 word list \<times> 'l"
  nogba_get_framebuffer_top :: "'l \<Rightarrow> 16 word list \<times> 'l"
  nogba_get_framebuffer_bot :: "'l \<Rightarrow> 16 word list \<times> 'l"

text \<open>
  What the constructor reads from its surroundings: \<open>os.name\<close>,
  \<open>os.path.dirname(__file__)\<close>, \<open>os.path.join\<close>, the outcome of
  \<open>ctypes.CDLL\<close> at each path, and the code points that the encoding of
  \<open>sys.stdout\<close> can encode.
\<close>

record 'l env =
  os_name :: pystr
  file_dir :: pystr
  path_join :: "pystr \<Rightarrow> pystr \<Rightarrow> pystr"
  CDLL :: "pystr \<Rightarrow> error + 'l cdll"
  stdout_encodes :: "nat \<Rightarrow> bool"

text \<open>What the methods change outside the object.\<close>

record 'l world =
  rand :: rng
  native :: 'l
  stdout :: "pystr list"

text \<open>
  A \<open>ctypes\<close> array has a fixed length: the callee overwrites a prefix of it (stores
  beyond its end are outside the model).
\<close>

definition ctypes_write :: "'a list \<Rightarrow> 'a list \<Rightarrow> 'a list" where
  "ctypes_write arr out = take (length arr) (out @ drop (length out) arr)"

section \<open>The delegating core: class NoGbaCore\<close>

record 'l nogba_core = core +
  lib :: "'l cdll option"

definition candidates :: "'l env \<Rightarrow> pystr list" where
  "candidates e =
     [if os_name e = str ''nt'' then str ''nogba.dll'' else str ''libnogba.so'',
      path_join e (file_dir e) (str ''nogba.dll''),
      path_join e (file_dir e) (str ''libnogba.so'')]"

text \<open>The loop of \<open>_load_library\<close>: only \<open>OSError\<close> is caught.\<close>

fun try_candidates :: "(pystr \<Rightarrow> error + 'h) \<Rightarrow> pystr list \<Rightarrow> error + 'h option" where
  "try_candidates cd [] = Inr None"
| "try_candidates cd (p # ps) =
     (case cd p of
        Inr h \<Rightarrow> Inr (Some h)
      | Inl e \<Rightarrow> if e = OSError then try_candidates cd ps else Inl e)"

definition warn_not_found :: pystr where
  "warn_not_found =
     str ''[WARN] no$gba shared library not found '' @ [0x2014] @
     str '' falling back to stub mode.''"

text \<open>
  \<open>print(s)\<close> on an open \<open>sys.stdout\<close> with the default, strict, error handler:
  the text is encoded before anything is written, and a code point outside the stream's
  encoding raises \<open>UnicodeEncodeError\<close>.
\<close>

definition print :: "'l env \<Rightarrow> pystr \<Rightarrow> pystr list \<Rightarrow> error + pystr list" where
  "print e s out =
     (if list_all (stdout_encodes e) s then Inr (out @ [s]) else Inl UnicodeEncodeError)"

text \<open>
  \<open>_load_library\<close>. The warning is printed after the loop, outside the \<open>try\<close>: what
  \<open>print\<close> raises leaves the method.
\<close>

definition load_library :: "'l env \<Rightarrow> pystr list \<Rightarrow> error + ('l cdll option \<times> pystr list)" where
  "load_library e out =
     (case try_candidates (CDLL e) (candidates e) of
        Inl err \<Rightarrow> Inl err
      | Inr (Some h) \<Rightarrow> Inr (Some h, out)
      | Inr None \<Rightarrow>
          (case print e warn_not_found out of
             Inl err \<Rightarrow> Inl err
           | Inr out' \<Rightarrow> Inr (None, out')))"

text \<open>
  \<open>NoGbaCore.__init__\<close>. A constructor that raises leaves no object to its caller; the
  model keeps the object as it is at the \<open>raise\<close>, next to the error.
  \<open>_init_functions\<close> only sets the result and argument types of the entry points.
\<close>

definition NoGbaCore_init ::
  "'l env \<Rightarrow> 'l world \<Rightarrow>
     (error \<times> 'l nogba_core \<times> 'l world) + ('l nogba_core \<times> 'l world)" where
  "NoGbaCore_init e w =
     (let s0 = core.extend EmulatorCore_init (nogba_core.fields None) in
      case load_library e (stdout w) of
        Inl err \<Rightarrow> Inl (err, s0, w)
      | Inr (h, out) \<Rightarrow>
          (let s1 = s0\<lparr>lib := h\<rparr>; w1 = w\<lparr>stdout := out\<rparr> in
           case h of
             None \<Rightarrow> Inr (s1, w1)
           | Some L \<Rightarrow>
               (case nogba_init L (native w1) of (rc, l') \<Rightarrow>
                  if sint rc \<noteq> 0
                  then Inl (RuntimeError ''no$gba: initialization failed'', s1,
                            w1\<lparr>native := l'\<rparr>)
                  else Inr (s1, w1\<lparr>native := l'\<rparr>))))"

definition NoGbaCore_load_rom ::
  "'l world \<Rightarrow> 'l nogba_core \<Rightarrow> pystr \<Rightarrow> error + (bool \<times> 'l nogba_core \<times> 'l world)" where
  "NoGbaCore_load_rom w s path =
     (case lib s of
        None \<Rightarrow> (case EmulatorCore_load_rom s path of (r, s') \<Rightarrow> Inr (r, s', w))
      | Some L \<Rightarrow>
          (case encode_utf8 path of
             Inl err \<Rightarrow> Inl err
           | Inr bs \<Rightarrow>
               (case nogba_load_rom L bs (native w) of (rc, l') \<Rightarrow>
                  if sint rc \<noteq> 0 then Inr (False, s, w\<lparr>native := l'\<rparr>)
                  else Inr (True, s\<lparr>rom_path := Some path\<rparr>, w\<lparr>native := l'\<rparr>))))"

definition NoGbaCore_reset :: "'l world \<Rightarrow> 'l nogba_core \<Rightarrow> 'l nogba_core \<times> 'l world" where
  "NoGbaCore_reset w s =
     (let w1 = (case lib s of None \<Rightarrow> w | Some L \<Rightarrow> w\<lparr>native := nogba_reset L (native w)\<rparr>)
      in (EmulatorCore_reset s, w1))"

definition pull_registers :: "'l cdll \<Rightarrow> 'l \<Rightarrow> 'a core_scheme \<Rightarrow> 'a core_scheme \<times> 'l" where
  "pull_registers L l s =
     (case nogba_get_arm9_regs L l of (o9, l1) \<Rightarrow>
        (let arr1 = ctypes_write (replicate 17 0) o9;
             s1 = s\<lparr>arm9 := take 16 (map uint arr1), cpsr9 := uint (arr1 ! 16)\<rparr>
         in case nogba_get_arm7_regs L l1 of (o7, l2) \<Rightarrow>
              (let arr2 = ctypes_write arr1 o7
               in (s1\<lparr>arm7 := take 16 (map uint arr2), cpsr7 := uint (arr2 ! 16)\<rparr>, l2))))"

text \<open>The pixel formula of \<open>convert\<close>, on the Python integer read from the buffer.\<close>

definition convert_pixel :: "int \<Rightarrow> pixel" where
  "convert_pixel pix =
     (push_bit 3 (drop_bit 11 pix AND 0x1F),
      push_bit 2 (drop_bit 5 pix AND 0x3F),
      push_bit 3 (pix AND 0x1F))"

definition convert :: "16 word list \<Rightarrow> error + image" where
  "convert src =
     for_each (enumerate 0 src)
       (\<lambda>(i, pix) img. putpixel img (i mod FB_W, i div FB_W) (convert_pixel (uint pix)))
       (Image_new (FB_W, FB_H) black)"

definition pull_framebuffers ::
  "'l cdll \<Rightarrow> 'l \<Rightarrow> 'a core_scheme \<Rightarrow> error + ('a core_scheme \<times> 'l)" where
  "pull_framebuffers L l s =
     (case nogba_get_framebuffer_top L l of (ot, l1) \<Rightarrow>
      case nogba_get_framebuffer_bot L l1 of (ob, l2) \<Rightarrow>
        (case convert (ctypes_write (replicate (FB_W * FB_H) 0) ot) of
           Inl err \<Rightarrow> Inl err
         | Inr t \<Rightarrow>
             (case convert (ctypes_write (replicate (FB_W * FB_H) 0) ob) of
                Inl err \<Rightarrow> Inl err
              | Inr b \<Rightarrow> Inr (s\<lparr>fb_top := t, fb_bot := b\<rparr>, l2))))"

definition NoGbaCore_run_frame ::
  "'l world \<Rightarrow> 'l nogba_core \<Rightarrow> error + ('l nogba_core \<times> 'l world)" where
  "NoGbaCore_run_frame w s =
     (case lib s of
        None \<Rightarrow>
          (case EmulatorCore_run_frame (rand w) s of
             Inl err \<Rightarrow> Inl err
           | Inr (s', g') \<Rightarrow> Inr (s', w\<lparr>rand := g'\<rparr>))
      | Some L \<Rightarrow>
          (case pull_registers L (nogba_run_frame L (native w)) s of (s1, l2) \<Rightarrow>
             (case pull_framebuffers L l2 s1 of
                Inl err \<Rightarrow> Inl err
              | Inr (s2, l3) \<Rightarrow> Inr (s2\<lparr>frame := frame s2 + 1\<rparr>, w\<lparr>native := l3\<rparr>))))"

section \<open>Driving a core\<close>

text \<open>The host's loop: \<open>n\<close> calls of \<open>run_frame\<close>, one after the other.\<close>

fun EmulatorCore_run_frames ::
  "nat \<Rightarrow> rng \<Rightarrow> 'a core_scheme \<Rightarrow> error + ('a core_scheme \<times> rng)" where
  "EmulatorCore_run_frames 0 g s = Inr (s, g)"
| "EmulatorCore_run_frames (Suc n) g s =
     (case EmulatorCore_run_frame g s of
        Inl err \<Rightarrow> Inl err
      | Inr (s', g') \<Rightarrow> EmulatorCore_run_frames n g' s')"

fun NoGbaCore_run_frames ::
  "nat \<Rightarrow> 'l world \<Rightarrow> 'l nogba_core \<Rightarrow> error + ('l nogba_core \<times> 'l world)" where
  "NoGbaCore_run_frames 0 w s = Inr (s, w)"
| "NoGbaCore_run_frames (Suc n) w s =
     (case NoGbaCore_run_frame w s of
        Inl err \<Rightarrow> Inl err
      | Inr (s', w') \<Rightarrow> NoGbaCore_run_frames n w' s')"

text \<open>
  The public interface as data: a call of one of the five methods, and what the caller
  gets back from it.
\<close>

datatype call = Load_rom pystr | Reset | Run_frame | Get_registers | Get_framebuffers

datatype result =
    Ret_bool bool
  | Ret_none
  | Ret_registers "int list \<times> int list \<times> int \<times> int"
  | Ret_framebuffers "image \<times> image"

fun EmulatorCore_call ::
  "call \<Rightarrow> rng \<Rightarrow> 'a core_scheme \<Rightarrow> error + (result \<times> 'a core_scheme \<times> rng)" where
  "EmulatorCore_call (Load_rom path) g s =
     (case EmulatorCore_load_rom s path of (r, s') \<Rightarrow> Inr (Ret_bool r, s', g))"
| "EmulatorCore_call Reset g s = Inr (Ret_none, EmulatorCore_reset s, g)"
| "EmulatorCore_call Run_frame g s =
     (case EmulatorCore_run_frame g s of
        Inl err \<Rightarrow> Inl err
      | Inr (s', g') \<Rightarrow> Inr (Ret_none, s', g'))"
| "EmulatorCore_call Get_registers g s = Inr (Ret_registers (get_registers s), s, g)"
| "EmulatorCore_call Get_framebuffers g s = Inr (Ret_framebuffers (get_framebuffers s), s, g)"

fun NoGbaCore_call ::
  "call \<Rightarrow> 'l world \<Rightarrow> 'l nogba_core \<Rightarrow> error + (result \<times> 'l nogba_core \<times> 'l world)" where
  "NoGbaCore_call (Load_rom path) w s =
     (case NoGbaCore_load_rom w s path of
        Inl err \<Rightarrow> Inl err
      | Inr (r, s', w') \<Rightarrow> Inr (Ret_bool r, s', w'))"
| "NoGbaCore_call Reset w s =
     (case NoGbaCore_reset w s of (s', w') \<Rightarrow> Inr (Ret_none, s', w'))"
| "NoGbaCore_call Run_frame w s =
     (case NoGbaCore_run_frame w s of
        Inl err \<Rightarrow> Inl err
      | Inr (s', w') \<Rightarrow> Inr (Ret_none, s', w'))"
| "NoGbaCore_call Get_registers w s = Inr (Ret_registers (get_registers s), s, w)"
| "NoGbaCore_call Get_framebuffers w s = Inr (Ret_framebuffers (get_framebuffers s), s, w)"

text \<open>A sequence of calls: the results in order, up to the first call that raises.\<close>

fun EmulatorCore_calls ::
  "call list \<Rightarrow> rng \<Rightarrow> 'a core_scheme \<Rightarrow> error + (result list \<times> 'a core_scheme \<times> rng)" where
  "EmulatorCore_calls [] g s = Inr ([], s, g)"
| "EmulatorCore_calls (c # cs) g s =
     (case EmulatorCore_call c g s of
        Inl err \<Rightarrow> Inl err
      | Inr (r, s', g') \<Rightarrow>
          (case EmulatorCore_calls cs g' s' of
             Inl err \<Rightarrow> Inl err
           | Inr (rs, s'', g'') \<Rightarrow> Inr (r # rs, s'', g'')))"

fun NoGbaCore_calls ::
  "call list \<Rightarrow> 'l world \<Rightarrow> 'l nogba_core \<Rightarrow>
     error + (result list \<times> 'l nogba_core \<times> 'l world)" where
  "NoGbaCore_calls [] w s = Inr ([], s, w)"
| "NoGbaCore_calls (c # cs) w s =
     (case NoGbaCore_call c w s of
        Inl err \<Rightarrow> Inl err
      | Inr (r, s', w') \<Rightarrow>
          (case NoGbaCore_calls cs w' s' of
             Inl err \<Rightarrow> Inl err
           | Inr (rs, s'', w'') \<Rightarrow> Inr (r # rs, s'', w'')))"

section \<open>Invariants and closed forms\<close>

text \<open>Both framebuffers are 256 by 192 images.\<close>

definition fb_ok :: "'a core_scheme \<Rightarrow> bool" where
  "fb_ok s \<longleftrightarrow>
     im_size (fb_top s) = (FB_W, FB_H) \<and> length (im_data (fb_top s)) = FB_W * FB_H \<and>
     im_size (fb_bot s) = (FB_W, FB_H) \<and> length (im_data (fb_bot s)) = FB_W * FB_H"

text \<open>Both general-purpose register arrays have sixteen entries.\<close>

definition regs_ok :: "'a core_scheme \<Rightarrow> bool" where
  "regs_ok s \<longleftrightarrow> length (arm9 s) = 16 \<and> length (arm7 s) = 16"

text \<open>The colour of row \<open>y\<close> in a pattern of bands eight rows high.\<close>

definition banded :: "pixel \<Rightarrow> pixel \<Rightarrow> nat \<Rightarrow> pixel" where
  "banded p q y = (if (y div 8) mod 2 = 0 then p else q)"

definition band_image :: "pixel \<Rightarrow> pixel \<Rightarrow> image" where
  "band_image p q =
     \<lparr>im_size = (FB_W, FB_H), im_data = map (\<lambda>i. banded p q (i div FB_W)) [0..<FB_W * FB_H]\<rparr>"

text \<open>Pixel data whose first \<open>k\<close> pixels, in row-major order, have been painted.\<close>

definition painted :: "(nat \<Rightarrow> pixel) \<Rightarrow> nat \<Rightarrow> pixel list \<Rightarrow> pixel list" where
  "painted col k d = map (\<lambda>i. if i < k then col (i div FB_W) else d ! i) [0..<length d]"

definition frame_painted ::
  "pixel \<Rightarrow> pixel \<Rightarrow> 'a core_scheme \<Rightarrow> nat \<Rightarrow> 'a core_scheme" where
  "frame_painted p1 p2 s k =
     s\<lparr>fb_top := (fb_top s)\<lparr>im_data := painted (banded p1 (42, 54, 84)) k (im_data (fb_top s))\<rparr>,
       fb_bot := (fb_bot s)\<lparr>im_data := painted (banded p2 (34, 34, 34)) k (im_data (fb_bot s))\<rparr>\<rparr>"

text \<open>The image of \<open>convert\<close> after the first \<open>k\<close> pixels of the buffer.\<close>

definition converted :: "16 word list \<Rightarrow> nat \<Rightarrow> image" where
  "converted src k =
     \<lparr>im_size = (FB_W, FB_H),
      im_data = map (\<lambda>pix. convert_pixel (uint pix)) (take k src) @
                replicate (FB_W * FB_H - k) black\<rparr>"

section \<open>Example surroundings\<close>

text \<open>
  A library whose state counts the frames it has run, and whose \<open>nogba_init\<close> and
  \<open>nogba_load_rom\<close> return the given code; the code points of a UTF-8 and of an ASCII
  output stream; a POSIX installation that prints in UTF-8; a world to start in.
\<close>

definition demo_lib :: "32 word \<Rightarrow> nat cdll" where
  "demo_lib rc =
     \<lparr>nogba_init = (\<lambda>l. (rc, l)),
      nogba_reset = (\<lambda>l. 0),
      nogba_load_rom = (\<lambda>bs l. (rc, l)),
      nogba_run_frame = Suc,
      nogba_get_arm9_regs = (\<lambda>l. (replicate 17 (of_nat l), l)),
      nogba_get_arm7_regs = (\<lambda>l. (replicate 17 (of_nat l + 1), l)),
      nogba_get_framebuffer_top = (\<lambda>l. (replicate (FB_W * FB_H) (of_nat l), l)),
      nogba_get_framebuffer_bot = (\<lambda>l. (replicate (FB_W * FB_H) (of_nat l + 1), l))\<rparr>"

definition utf8_encodes :: "nat \<Rightarrow> bool" where
  "utf8_encodes c \<longleftrightarrow> c < 0x110000 \<and> \<not> (0xD800 \<le> c \<and> c \<le> 0xDFFF)"

definition ascii_encodes :: "nat \<Rightarrow> bool" where
  "ascii_encodes c \<longleftrightarrow> c < 0x80"

definition demo_env :: "(pystr \<Rightarrow> error + nat cdll) \<Rightarrow> nat env" where
  "demo_env cd =
     \<lparr>os_name = str ''posix'', file_dir = str ''/opt/emuds'',
      path_join = (\<lambda>a b. a @ str ''/'' @ b), CDLL = cd, stdout_encodes = utf8_encodes\<rparr>"

definition demo_world :: "nat world" where
  "demo_world = \<lparr>rand = (\<lambda>n. 7 * n + 3), native = 0, stdout = []\<rparr>"

definition demo_core :: "nat cdll option \<Rightarrow> nat nogba_core" where
  "demo_core h = core.extend EmulatorCore_init (nogba_core.fields h)"

section \<open>Comparing the two cores\<close>

text \<open>
  What a caller can tell apart: a run of calls on a delegating core and the same run on a
  synthetic core end the same way when both raise the same error, or both return the same
  results and leave the same base-class state, with the same draws taken from the
  generator and nothing else of the world changed.
\<close>

fun same_outcome ::
  "'l world \<Rightarrow> error + (result list \<times> 'l nogba_core \<times> 'l world) \<Rightarrow>
     error + (result list \<times> core \<times> rng) \<Rightarrow> bool" where
  "same_outcome w (Inl e) (Inl e') = (e = e')"
| "same_outcome w (Inr (rs, s, w')) (Inr (rs', t, g)) =
     (rs = rs' \<and> core.truncate s = t \<and> lib s = None \<and> w' = w\<lparr>rand := g\<rparr>)"
| "same_outcome w (Inl e) (Inr v) = False"
| "same_outcome w (Inr v) (Inl e) = False"

section \<open>Properties of the model\<close>

subsection \<open>Loops\<close>

lemma for_each_append:
  "for_each (xs @ ys) body s =
     (case for_each xs body s of Inl e \<Rightarrow> Inl e | Inr t \<Rightarrow> for_each ys body t)"
  by (induction xs arbitrary: s) (auto split: sum.splits)

lemma for_each_invariant:
  assumes "P 0 s"
    and "\<And>i t. i < length xs \<Longrightarrow> P i t \<Longrightarrow> \<exists>t'. body (xs ! i) t = Inr t' \<and> P (Suc i) t'"
  shows "\<exists>t. for_each xs body s = Inr t \<and> P (length xs) t"
  using assms(2)
proof (induction xs rule: rev_induct)
  case Nil
  then show ?case using assms(1) by simp
next
  case (snoc x xs)
  have "\<exists>t. for_each xs body s = Inr t \<and> P (length xs) t"
  proof (rule snoc.IH)
    fix i t assume "i < length xs" "P i t"
    then show "\<exists>t'. body (xs ! i) t = Inr t' \<and> P (Suc i) t'"
      using snoc.prems [of i t] by (simp add: nth_append)
  qed
  then obtain t where t: "for_each xs body s = Inr t" "P (length xs) t" by blast
  from snoc.prems [of "length xs" t] t(2)
  obtain t' where "body x t = Inr t'" "P (Suc (length xs)) t'" by auto
  with t show ?case by (simp add: for_each_append)
qed

lemma for_each_sim:
  assumes "\<And>x s. body' x (f s) = map_sum id f (body x s)"
  shows "for_each xs body' (f s) = map_sum id f (for_each xs body s)"
  by (induction xs arbitrary: s) (auto simp: assms split: sum.splits)

lemma for_each_preserves:
  assumes "\<And>x s s'. body x s = Inr s' \<Longrightarrow> Q s \<Longrightarrow> Q s'"
  shows "for_each xs body s = Inr s' \<Longrightarrow> Q s \<Longrightarrow> Q s'"
proof (induction xs arbitrary: s)
  case Nil
  then show ?case by simp
next
  case (Cons x xs)
  then show ?case
    by (cases "body x s") (auto dest: assms)
qed

subsection \<open>The synthetic framebuffers in closed form\<close>

lemma painted_0: "painted col 0 d = d"
  by (simp add: painted_def map_nth)

lemma length_painted: "length (painted col k d) = length d"
  by (simp add: painted_def)

lemma painted_step:
  assumes "x < FB_W" and "y * FB_W + x < length d"
  shows "(painted col (y * FB_W + x) d)[y * FB_W + x := col y] = painted col (Suc (y * FB_W + x)) d"
proof (rule nth_equalityI)
  show "length ((painted col (y * FB_W + x) d)[y * FB_W + x := col y]) =
        length (painted col (Suc (y * FB_W + x)) d)"
    by (simp add: length_painted)
next
  fix i assume "i < length ((painted col (y * FB_W + x) d)[y * FB_W + x := col y])"
  then have i: "i < length d" by (simp add: length_painted)
  have "(y * FB_W + x) div FB_W = y" using assms(1) by simp
  then show "(painted col (y * FB_W + x) d)[y * FB_W + x := col y] ! i =
        painted col (Suc (y * FB_W + x)) d ! i"
    using i by (auto simp: painted_def nth_list_update less_Suc_eq)
qed

lemma painted_all:
  "length d = FB_W * FB_H \<Longrightarrow>
   painted col (FB_H * FB_W) d = map (\<lambda>i. col (i div FB_W)) [0..<FB_W * FB_H]"
  by (simp add: painted_def mult.commute)

lemma fake_pixel_ok:
  assumes "im_size (fb_top s) = (FB_W, FB_H)" and "im_size (fb_bot s) = (FB_W, FB_H)"
    and "x < FB_W" and "y < FB_H"
  shows "fake_pixel p1 p2 y x s =
     Inr (s\<lparr>fb_top := (fb_top s)\<lparr>im_data :=
                (im_data (fb_top s))[y * FB_W + x := banded p1 (42, 54, 84) y]\<rparr>,
            fb_bot := (fb_bot s)\<lparr>im_data :=
                (im_data (fb_bot s))[y * FB_W + x := banded p2 (34, 34, 34) y]\<rparr>\<rparr>)"
  using assms by (simp add: fake_pixel_def putpixel_def banded_def)

lemma fake_pixel_painted:
  assumes "fb_ok s" and "x < FB_W" and "y < FB_H"
  shows "fake_pixel p1 p2 y x (frame_painted p1 p2 s (y * FB_W + x)) =
           Inr (frame_painted p1 p2 s (Suc (y * FB_W + x)))"
proof -
  have "y * FB_W + x < FB_W * FB_H"
  proof -
    have "y * FB_W + x < y * FB_W + FB_W" using assms(2) by simp
    also have "\<dots> = Suc y * FB_W" by simp
    also have "\<dots> \<le> FB_H * FB_W" using assms(3) by (intro mult_le_mono1) simp
    finally show ?thesis by (simp add: mult.commute)
  qed
  then show ?thesis
    using assms
    by (simp add: fake_pixel_ok frame_painted_def fb_ok_def painted_step)
qed

lemma fake_row:
  assumes "fb_ok s" and "y < FB_H"
  shows "for_each [0..<FB_W] (fake_pixel p1 p2 y) (frame_painted p1 p2 s (y * FB_W)) =
           Inr (frame_painted p1 p2 s (Suc y * FB_W))"
proof -
  let ?P = "\<lambda>m t. t = frame_painted p1 p2 s (y * FB_W + m)"
  have "\<exists>t. for_each [0..<FB_W] (fake_pixel p1 p2 y) (frame_painted p1 p2 s (y * FB_W)) = Inr t
          \<and> ?P (length [0..<FB_W]) t"
  proof (rule for_each_invariant)
    show "?P 0 (frame_painted p1 p2 s (y * FB_W))" by simp
  next
    fix i t assume "i < length [0..<FB_W]" and "?P i t"
    then show "\<exists>t'. fake_pixel p1 p2 y ([0..<FB_W] ! i) t = Inr t' \<and> ?P (Suc i) t'"
      using fake_pixel_painted [OF assms(1) _ assms(2), of i p1 p2] by simp
  qed
  then show ?thesis by (simp add: add.commute)
qed

lemma fake_rows:
  assumes "fb_ok s"
  shows "for_each [0..<FB_H] (\<lambda>y. for_each [0..<FB_W] (fake_pixel p1 p2 y)) s =
           Inr (frame_painted p1 p2 s (FB_H * FB_W))"
proof -
  let ?P = "\<lambda>y t. t = frame_painted p1 p2 s (y * FB_W)"
  have "\<exists>t. for_each [0..<FB_H] (\<lambda>y. for_each [0..<FB_W] (fake_pixel p1 p2 y)) s = Inr t
          \<and> ?P (length [0..<FB_H]) t"
  proof (rule for_each_invariant)
    show "?P 0 s" by (simp add: frame_painted_def painted_0)
  next
    fix i t assume "i < length [0..<FB_H]" and "?P i t"
    then show "\<exists>t'. for_each [0..<FB_W] (fake_pixel p1 p2 ([0..<FB_H] ! i)) t = Inr t'
                 \<and> ?P (Suc i) t'"
      using fake_row [OF assms, of i p1 p2] by simp
  qed
  then show ?thesis by simp
qed

lemma fake_framebuffers_eq:
  assumes "fb_ok s"
  shows "fake_framebuffers s =
     Inr (s\<lparr>fb_top := band_image (c1 (frame s)) (42, 54, 84),
            fb_bot := band_image (c2 (frame s)) (34, 34, 34)\<rparr>)"
proof -
  have "fb_top s = \<lparr>im_size = (FB_W, FB_H), im_data = im_data (fb_top s)\<rparr>"
       "fb_bot s = \<lparr>im_size = (FB_W, FB_H), im_data = im_data (fb_bot s)\<rparr>"
    using assms by (simp_all add: fb_ok_def)
  then have "frame_painted p1 p2 s (FB_H * FB_W) =
      s\<lparr>fb_top := band_image p1 (42, 54, 84), fb_bot := band_image p2 (34, 34, 34)\<rparr>" for p1 p2
    using assms by (simp add: frame_painted_def band_image_def painted_all fb_ok_def)
  then show ?thesis
    by (simp add: fake_framebuffers_def fake_rows [OF assms])
qed

lemma getpixel_band_image:
  assumes "x < FB_W" and "y < FB_H"
  shows "getpixel (band_image p q) (x, y) = Inr (banded p q y)"
proof -
  have "y * FB_W + x < y * FB_W + FB_W" using assms(1) by simp
  also have "\<dots> = Suc y * FB_W" by simp
  also have "\<dots> \<le> FB_H * FB_W" using assms(2) by (intro mult_le_mono1) simp
  finally have lt: "y * FB_W + x < FB_W * FB_H" by (simp add: mult.commute)
  have "(y * FB_W + x) div FB_W = y" using assms(1) by simp
  then show ?thesis using assms lt by (simp add: getpixel_def band_image_def)
qed

lemma fake_framebuffers_pixels:
  assumes "fb_ok s" and "x < FB_W" and "y < FB_H"
  shows "\<exists>t. fake_framebuffers s = Inr t \<and>
           getpixel (fb_top t) (x, y) = Inr (banded (c1 (frame s)) (42, 54, 84) y) \<and>
           getpixel (fb_bot t) (x, y) = Inr (banded (c2 (frame s)) (34, 34, 34) y)"
  using assms(2,3) by (simp add: fake_framebuffers_eq [OF assms(1)] getpixel_band_image)

lemma c1_not_fixed: "c1 f \<noteq> (42, 54, 84)"
  by (simp add: c1_def)

lemma c2_not_fixed: "c2 f \<noteq> (34, 34, 34)"
  by (simp add: c2_def)

subsection \<open>The pixel converter\<close>

lemma mask5: "(0x1F :: int) = mask 5" by (simp add: mask_eq_exp_minus_1)

lemma mask6: "(0x3F :: int) = mask 6" by (simp add: mask_eq_exp_minus_1)

lemma convert_pixel_take_bit:
  "convert_pixel x =
     (push_bit 3 (take_bit 5 (drop_bit 11 x)),
      push_bit 2 (take_bit 6 (drop_bit 5 x)),
      push_bit 3 (take_bit 5 x))"
  by (simp only: convert_pixel_def mask5 mask6 take_bit_eq_mask)

lemma convert_pixel_arith:
  "convert_pixel x = (8 * (x div 2048 mod 32), 4 * (x div 32 mod 64), 8 * (x mod 32))"
  by (simp add: convert_pixel_take_bit push_bit_eq_mult take_bit_eq_mod drop_bit_eq_div)

lemma convert_pixel_red:
  fixes p :: "16 word"
  shows "i < 5 \<Longrightarrow> bit (fst (convert_pixel (uint p))) (i + 3) = bit p (i + 11)"
    and "i < 3 \<Longrightarrow> \<not> bit (fst (convert_pixel (uint p))) i"
    and "0 \<le> fst (convert_pixel (uint p))" and "fst (convert_pixel (uint p)) < 256"
proof -
  show "i < 5 \<Longrightarrow> bit (fst (convert_pixel (uint p))) (i + 3) = bit p (i + 11)"
    by (simp add: convert_pixel_take_bit bit_push_bit_iff bit_take_bit_iff bit_drop_bit_eq
        bit_uint_iff add.commute)
  show "i < 3 \<Longrightarrow> \<not> bit (fst (convert_pixel (uint p))) i"
    by (simp add: convert_pixel_take_bit bit_push_bit_iff)
  show "0 \<le> fst (convert_pixel (uint p))"
    by (simp add: convert_pixel_arith)
  have "uint p div 2048 mod 32 < 32" by simp
  then show "fst (convert_pixel (uint p)) < 256"
    by (simp add: convert_pixel_arith)
qed

lemma convert_pixel_green:
  fixes p :: "16 word"
  shows "i < 6 \<Longrightarrow> bit (fst (snd (convert_pixel (uint p)))) (i + 2) = bit p (i + 5)"
    and "i < 2 \<Longrightarrow> \<not> bit (fst (snd (convert_pixel (uint p)))) i"
    and "0 \<le> fst (snd (convert_pixel (uint p)))" and "fst (snd (convert_pixel (uint p))) < 256"
proof -
  show "i < 6 \<Longrightarrow> bit (fst (snd (convert_pixel (uint p)))) (i + 2) = bit p (i + 5)"
    by (simp add: convert_pixel_take_bit bit_push_bit_iff bit_take_bit_iff bit_drop_bit_eq
        bit_uint_iff add.commute)
  show "i < 2 \<Longrightarrow> \<not> bit (fst (snd (convert_pixel (uint p)))) i"
    by (simp add: convert_pixel_take_bit bit_push_bit_iff)
  show "0 \<le> fst (snd (convert_pixel (uint p)))"
    by (simp add: convert_pixel_arith)
  have "uint p div 32 mod 64 < 64" by simp
  then show "fst (snd (convert_pixel (uint p))) < 256"
    by (simp add: convert_pixel_arith)
qed

lemma convert_pixel_blue:
  fixes p :: "16 word"
  shows "i < 5 \<Longrightarrow> bit (snd (snd (convert_pixel (uint p)))) (i + 3) = bit p i"
    and "i < 3 \<Longrightarrow> \<not> bit (snd (snd (convert_pixel (uint p)))) i"
    and "0 \<le> snd (snd (convert_pixel (uint p)))" and "snd (snd (convert_pixel (uint p))) < 256"
proof -
  show "i < 5 \<Longrightarrow> bit (snd (snd (convert_pixel (uint p)))) (i + 3) = bit p i"
    by (simp add: convert_pixel_take_bit bit_push_bit_iff bit_take_bit_iff bit_uint_iff)
  show "i < 3 \<Longrightarrow> \<not> bit (snd (snd (convert_pixel (uint p)))) i"
    by (simp add: convert_pixel_take_bit bit_push_bit_iff)
  show "0 \<le> snd (snd (convert_pixel (uint p)))"
    by (simp add: convert_pixel_arith)
  have "uint p mod 32 < 32" by simp
  then show "snd (snd (convert_pixel (uint p))) < 256"
    by (simp add: convert_pixel_arith)
qed

lemma length_ctypes_write: "length (ctypes_write arr out) = length arr"
  by (simp add: ctypes_write_def)

lemma converted_step:
  assumes "k < FB_W * FB_H" and "length src = FB_W * FB_H"
  shows "putpixel (converted src k) (k mod FB_W, k div FB_W) (convert_pixel (uint (src ! k))) =
           Inr (converted src (Suc k))"
proof -
  have W: "0 < FB_W" by (simp add: FB_W_def)
  have "k div FB_W < FB_H"
    using assms(1) W by (simp add: less_mult_imp_div_less mult.commute)
  moreover have "k mod FB_W < FB_W" using W by simp
  moreover have "k div FB_W * FB_W + k mod FB_W = k" by simp
  moreover have "FB_W * FB_H - k = Suc (FB_W * FB_H - Suc k)" using assms(1) by simp
  ultimately show ?thesis
    using assms
    by (simp add: putpixel_def converted_def list_update_append take_Suc_conv_app_nth)
qed

lemma convert_eq:
  assumes "length src = FB_W * FB_H"
  shows "convert src =
     Inr \<lparr>im_size = (FB_W, FB_H), im_data = map (\<lambda>pix. convert_pixel (uint pix)) src\<rparr>"
proof -
  let ?body = "\<lambda>(i, pix) img.
     putpixel img (i mod FB_W, i div FB_W) (convert_pixel (uint pix))"
  let ?P = "\<lambda>k img. img = converted src k"
  have "\<exists>t. for_each (enumerate 0 src) ?body (Image_new (FB_W, FB_H) black) = Inr t
          \<and> ?P (length (enumerate 0 src)) t"
  proof (rule for_each_invariant)
    show "?P 0 (Image_new (FB_W, FB_H) black)"
      by (simp add: converted_def Image_new_def)
  next
    fix i t assume "i < length (enumerate 0 src)" and "?P i t"
    then show "\<exists>t'. ?body (enumerate 0 src ! i) t = Inr t' \<and> ?P (Suc i) t'"
      using converted_step [of i src] assms by (simp add: nth_enumerate_eq)
  qed
  then show ?thesis using assms by (simp add: convert_def converted_def)
qed

lemma convert_pixels:
  assumes "length src = FB_W * FB_H" and "i < FB_W * FB_H"
  shows "\<exists>img. convert src = Inr img \<and> im_size img = (FB_W, FB_H) \<and>
           getpixel img (i mod FB_W, i div FB_W) = Inr (convert_pixel (uint (src ! i)))"
proof -
  have W: "0 < FB_W" by (simp add: FB_W_def)
  have "i div FB_W < FB_H"
    using assms(2) W by (simp add: less_mult_imp_div_less mult.commute)
  moreover have "i mod FB_W < FB_W" using W by simp
  moreover have "i div FB_W * FB_W + i mod FB_W = i" by simp
  ultimately show ?thesis
    using assms by (simp add: convert_eq getpixel_def)
qed

subsection \<open>Steps keep the invariants\<close>

lemma length_randints: "randints n a b g = (vs, g') \<Longrightarrow> length vs = n"
  by (induction n arbitrary: g vs g') (auto split: prod.splits)

lemma more_lib:
  fixes s s' :: "'l nogba_core"
  shows "core.more s' = core.more s \<Longrightarrow> lib s' = lib s"
  by (cases s, cases s') simp

lemma fb_ok_band: "fb_ok (s\<lparr>fb_top := band_image p q, fb_bot := band_image p' q'\<rparr>)"
  by (simp add: fb_ok_def band_image_def)

lemma fb_ok_init: "fb_ok EmulatorCore_init"
  by (simp add: fb_ok_def EmulatorCore_init_def Image_new_def)

lemma fb_ok_demo_core: "fb_ok (demo_core h)"
  by (simp add: fb_ok_def demo_core_def EmulatorCore_init_def Image_new_def core.defs)

lemma fb_ok_reset: "fb_ok (EmulatorCore_reset s) = fb_ok s"
  by (simp add: fb_ok_def EmulatorCore_reset_def)

lemma regs_ok_init: "regs_ok EmulatorCore_init"
  by (simp add: regs_ok_def EmulatorCore_init_def)

lemma regs_ok_demo_core: "regs_ok (demo_core h)"
  by (simp add: regs_ok_def demo_core_def EmulatorCore_init_def core.defs)

lemma fake_registers_frame:
  "fake_registers g s = (s', g') \<Longrightarrow>
     frame s' = frame s \<and> rom_path s' = rom_path s \<and> running s' = running s \<and>
     fb_top s' = fb_top s \<and> fb_bot s' = fb_bot s \<and> core.more s' = core.more s"
  by (auto simp: fake_registers_def split: prod.splits)

lemma fake_registers_regs_ok: "fake_registers g s = (s', g') \<Longrightarrow> regs_ok s'"
proof -
  assume a: "fake_registers g s = (s', g')"
  obtain r9 g1 where r9: "randints 16 0 0xFFFFFFFF g = (r9, g1)" by (cases "randints 16 0 0xFFFFFFFF g")
  obtain r7 g2 where r7: "randints 16 0 0xFFFFFFFF g1 = (r7, g2)" by (cases "randints 16 0 0xFFFFFFFF g1")
  have "length r9 = 16" using length_randints [OF r9] .
  moreover have "length r7 = 16" using length_randints [OF r7] .
  ultimately show ?thesis
    using a r9 r7 by (auto simp: fake_registers_def regs_ok_def split: prod.splits)
qed

lemma EmulatorCore_run_frame_ok:
  assumes "fb_ok s"
  shows "\<exists>s' g'. EmulatorCore_run_frame g s = Inr (s', g') \<and> frame s' = frame s + 1 \<and>
           fb_ok s' \<and> regs_ok s' \<and> rom_path s' = rom_path s \<and> running s' = running s \<and>
           core.more s' = core.more s \<and>
           fb_top s' = band_image (c1 (frame s + 1)) (42, 54, 84) \<and>
           fb_bot s' = band_image (c2 (frame s + 1)) (34, 34, 34)"
proof -
  obtain s1 g1 where s1: "fake_registers g (s\<lparr>frame := frame s + 1\<rparr>) = (s1, g1)"
    by (cases "fake_registers g (s\<lparr>frame := frame s + 1\<rparr>)")
  note f = fake_registers_frame [OF s1]
  have ok1: "fb_ok s1" using assms f by (simp add: fb_ok_def)
  have r1: "regs_ok s1" using fake_registers_regs_ok [OF s1] .
  show ?thesis
    using s1 f r1 fake_framebuffers_eq [OF ok1]
    by (simp add: EmulatorCore_run_frame_def fb_ok_band regs_ok_def)
qed

lemma EmulatorCore_run_frames_ok:
  "fb_ok s \<Longrightarrow>
     \<exists>s' g'. EmulatorCore_run_frames n g s = Inr (s', g') \<and> frame s' = frame s + int n \<and> fb_ok s'"
proof (induction n arbitrary: g s)
  case 0
  then show ?case by simp
next
  case (Suc n)
  from EmulatorCore_run_frame_ok [OF Suc.prems, of g]
  obtain s1 g1 where s1: "EmulatorCore_run_frame g s = Inr (s1, g1)"
    "frame s1 = frame s + 1" "fb_ok s1" by blast
  from Suc.IH [OF s1(3), of g1] obtain s' g' where
    "EmulatorCore_run_frames n g1 s1 = Inr (s', g')" "frame s' = frame s1 + int n" "fb_ok s'"
    by blast
  with s1 show ?case by simp
qed

lemma pull_registers_ok:
  "pull_registers L l s = (s', l') \<Longrightarrow>
     regs_ok s' \<and> frame s' = frame s \<and> rom_path s' = rom_path s \<and> running s' = running s \<and>
     fb_top s' = fb_top s \<and> fb_bot s' = fb_bot s \<and> core.more s' = core.more s"
  by (auto simp: pull_registers_def regs_ok_def Let_def length_ctypes_write split: prod.splits)

lemma pull_framebuffers_ok:
  "\<exists>s' l'. pull_framebuffers L l s = Inr (s', l') \<and> fb_ok s' \<and> frame s' = frame s \<and>
     rom_path s' = rom_path s \<and> running s' = running s \<and> arm9 s' = arm9 s \<and>
     arm7 s' = arm7 s \<and> core.more s' = core.more s"
proof -
  obtain ot l1 where t: "nogba_get_framebuffer_top L l = (ot, l1)"
    by (cases "nogba_get_framebuffer_top L l")
  obtain ob l2 where b: "nogba_get_framebuffer_bot L l1 = (ob, l2)"
    by (cases "nogba_get_framebuffer_bot L l1")
  have "convert (ctypes_write (replicate (FB_W * FB_H) 0) ot) =
        Inr \<lparr>im_size = (FB_W, FB_H),
             im_data = map (\<lambda>pix. convert_pixel (uint pix))
                         (ctypes_write (replicate (FB_W * FB_H) 0) ot)\<rparr>"
    by (rule convert_eq) (simp add: length_ctypes_write)
  moreover have "convert (ctypes_write (replicate (FB_W * FB_H) 0) ob) =
        Inr \<lparr>im_size = (FB_W, FB_H),
             im_data = map (\<lambda>pix. convert_pixel (uint pix))
                         (ctypes_write (replicate (FB_W * FB_H) 0) ob)\<rparr>"
    by (rule convert_eq) (simp add: length_ctypes_write)
  ultimately show ?thesis
    using t b by (simp add: pull_framebuffers_def fb_ok_def length_ctypes_write)
qed

lemma NoGbaCore_run_frame_ok:
  assumes "fb_ok s"
  shows "\<exists>s' w'. NoGbaCore_run_frame w s = Inr (s', w') \<and> frame s' = frame s + 1 \<and>
           fb_ok s' \<and> regs_ok s' \<and> rom_path s' = rom_path s \<and> running s' = running s \<and>
           lib s' = lib s"
proof (cases "lib s")
  case None
  from EmulatorCore_run_frame_ok [OF assms, of "rand w"]
  obtain s' g' where e: "EmulatorCore_run_frame (rand w) s = Inr (s', g')"
    and p: "frame s' = frame s + 1" "fb_ok s'" "regs_ok s'" "rom_path s' = rom_path s"
      "running s' = running s"
    and m: "core.more s' = core.more s"
    by blast
  have "NoGbaCore_run_frame w s = Inr (s', w\<lparr>rand := g'\<rparr>)"
    using None e by (simp add: NoGbaCore_run_frame_def)
  moreover have "lib s' = lib s" using m by (rule more_lib)
  ultimately show ?thesis using p by blast
next
  case (Some L)
  obtain s1 l2 where p: "pull_registers L (nogba_run_frame L (native w)) s = (s1, l2)"
    by (cases "pull_registers L (nogba_run_frame L (native w)) s")
  note r = pull_registers_ok [OF p]
  from pull_framebuffers_ok [of L l2 s1]
  obtain s2 l3 where q: "pull_framebuffers L l2 s1 = Inr (s2, l3)"
    and q2: "fb_ok s2" "frame s2 = frame s1" "rom_path s2 = rom_path s1"
      "running s2 = running s1" "arm9 s2 = arm9 s1" "arm7 s2 = arm7 s1"
    and m: "core.more s2 = core.more s1"
    by blast
  let ?s' = "s2\<lparr>frame := frame s2 + 1\<rparr>"
  have run: "NoGbaCore_run_frame w s = Inr (?s', w\<lparr>native := l3\<rparr>)"
    using Some p q by (simp add: NoGbaCore_run_frame_def)
  have "core.more s2 = core.more s" using m r by simp
  then have "lib s2 = lib s" by (rule more_lib)
  then have "lib ?s' = lib s" by simp
  moreover have "frame ?s' = frame s + 1" using q2 r by simp
  moreover have "fb_ok ?s'" using q2(1) by (simp add: fb_ok_def)
  moreover have "regs_ok ?s'" using q2 r by (simp add: regs_ok_def)
  moreover have "rom_path ?s' = rom_path s" using q2 r by simp
  moreover have "running ?s' = running s" using q2 r by simp
  ultimately show ?thesis using run by blast
qed

lemma NoGbaCore_run_frames_ok:
  "fb_ok s \<Longrightarrow>
     \<exists>s' w'. NoGbaCore_run_frames n w s = Inr (s', w') \<and> frame s' = frame s + int n \<and> fb_ok s'"
proof (induction n arbitrary: w s)
  case 0
  then show ?case by simp
next
  case (Suc n)
  from NoGbaCore_run_frame_ok [OF Suc.prems, of w]
  obtain s1 w1 where s1: "NoGbaCore_run_frame w s = Inr (s1, w1)"
    "frame s1 = frame s + 1" "fb_ok s1" by blast
  from Suc.IH [OF s1(3), of w1] obtain s' w' where
    "NoGbaCore_run_frames n w1 s1 = Inr (s', w')" "frame s' = frame s1 + int n" "fb_ok s'"
    by blast
  with s1 show ?case by simp
qed

lemma NoGbaCore_init_ok:
  "case NoGbaCore_init e w of
     Inl (err, s0, w0) \<Rightarrow> regs_ok s0 \<and> fb_ok s0
   | Inr (s0, w0) \<Rightarrow> regs_ok s0 \<and> fb_ok s0"
proof -
  have "regs_ok ((core.extend EmulatorCore_init (nogba_core.fields None))\<lparr>lib := h\<rparr>) \<and>
        fb_ok ((core.extend EmulatorCore_init (nogba_core.fields None))\<lparr>lib := h\<rparr>)"
    for h :: "'a cdll option"
    by (simp add: regs_ok_def fb_ok_def EmulatorCore_init_def Image_new_def core.defs)
  moreover have "regs_ok (core.extend EmulatorCore_init (nogba_core.fields (None :: 'a cdll option))) \<and>
        fb_ok (core.extend EmulatorCore_init (nogba_core.fields (None :: 'a cdll option)))"
    by (simp add: regs_ok_def fb_ok_def EmulatorCore_init_def Image_new_def core.defs)
  ultimately show ?thesis
    by (simp add: NoGbaCore_init_def Let_def split: sum.splits prod.splits option.splits)
qed

lemma encode_utf8_error: "encode_utf8 path = Inl err \<Longrightarrow> err = UnicodeEncodeError"
  by (induction path) (auto simp: utf8_char_def split: sum.splits if_splits)

lemma EmulatorCore_call_ok:
  assumes "regs_ok s" and "fb_ok s"
  shows "\<exists>r s' g'. EmulatorCore_call c g s = Inr (r, s', g') \<and> regs_ok s' \<and> fb_ok s'"
proof (cases c)
  case Run_frame
  from EmulatorCore_run_frame_ok [OF assms(2), of g]
  obtain s' g' where "EmulatorCore_run_frame g s = Inr (s', g')" "fb_ok s'" "regs_ok s'"
    by blast
  then show ?thesis using Run_frame by simp
qed (use assms in \<open>simp_all add: EmulatorCore_load_rom_def EmulatorCore_reset_def
      regs_ok_def fb_ok_def\<close>)

lemma NoGbaCore_call_ok:
  assumes "regs_ok s" and "fb_ok s"
  shows "(\<exists>r s' w'. NoGbaCore_call c w s = Inr (r, s', w') \<and> regs_ok s' \<and> fb_ok s') \<or>
         (NoGbaCore_call c w s = Inl UnicodeEncodeError \<and> (\<exists>path. c = Load_rom path))"
proof (cases c)
  case (Load_rom path)
  show ?thesis
  proof (cases "lib s")
    case None
    then show ?thesis
      using assms Load_rom
      by (simp add: NoGbaCore_load_rom_def EmulatorCore_load_rom_def regs_ok_def fb_ok_def)
  next
    case (Some L)
    show ?thesis
    proof (cases "encode_utf8 path")
      case (Inl err)
      then have "err = UnicodeEncodeError" by (rule encode_utf8_error)
      then show ?thesis using Inl Some Load_rom by (simp add: NoGbaCore_load_rom_def)
    next
      case (Inr bs)
      obtain rc l' where "nogba_load_rom L bs (native w) = (rc, l')"
        by (cases "nogba_load_rom L bs (native w)")
      then show ?thesis
        using assms Inr Some Load_rom
        by (simp add: NoGbaCore_load_rom_def regs_ok_def fb_ok_def)
    qed
  qed
next
  case Reset
  then show ?thesis
    using assms by (simp add: NoGbaCore_reset_def EmulatorCore_reset_def regs_ok_def fb_ok_def)
next
  case Run_frame
  from NoGbaCore_run_frame_ok [OF assms(2), of w]
  obtain s' w' where "NoGbaCore_run_frame w s = Inr (s', w')" "fb_ok s'" "regs_ok s'"
    by blast
  then show ?thesis using Run_frame by simp
next
  case Get_registers
  then show ?thesis using assms by simp
next
  case Get_framebuffers
  then show ?thesis using assms by simp
qed

lemma EmulatorCore_calls_ok:
  "regs_ok s \<Longrightarrow> fb_ok s \<Longrightarrow>
     \<exists>rs s' g'. EmulatorCore_calls cs g s = Inr (rs, s', g') \<and> regs_ok s' \<and> fb_ok s'"
proof (induction cs arbitrary: g s)
  case Nil
  then show ?case by simp
next
  case (Cons c cs)
  from EmulatorCore_call_ok [OF Cons.prems, of c g]
  obtain r s1 g1 where 1: "EmulatorCore_call c g s = Inr (r, s1, g1)" "regs_ok s1" "fb_ok s1"
    by blast
  from Cons.IH [OF 1(2,3), of g1]
  obtain rs s' g' where "EmulatorCore_calls cs g1 s1 = Inr (rs, s', g')" "regs_ok s'" "fb_ok s'"
    by blast
  with 1 show ?case by simp
qed

lemma NoGbaCore_calls_ok:
  "regs_ok s \<Longrightarrow> fb_ok s \<Longrightarrow> NoGbaCore_calls cs w s = Inr (rs, s', w') \<Longrightarrow>
     regs_ok s' \<and> fb_ok s'"
proof (induction cs arbitrary: w s rs)
  case Nil
  then show ?case by simp
next
  case (Cons c cs)
  from Cons.prems(3) obtain r s1 w1 where 1: "NoGbaCore_call c w s = Inr (r, s1, w1)"
    by (auto split: sum.splits)
  with NoGbaCore_call_ok [OF Cons.prems(1,2), of c w] have ok: "regs_ok s1" "fb_ok s1"
    by auto
  from Cons.prems(3) 1 obtain rs1 where "NoGbaCore_calls cs w1 s1 = Inr (rs1, s', w')"
    by (auto split: sum.splits)
  from Cons.IH [OF ok this] show ?case .
qed

subsection \<open>A subclass object seen as an object of the base class\<close>

lemma truncate_fields:
  "rom_path (core.truncate s) = rom_path s" "running (core.truncate s) = running s"
  "frame (core.truncate s) = frame s" "arm9 (core.truncate s) = arm9 s"
  "arm7 (core.truncate s) = arm7 s" "cpsr9 (core.truncate s) = cpsr9 s"
  "cpsr7 (core.truncate s) = cpsr7 s" "fb_top (core.truncate s) = fb_top s"
  "fb_bot (core.truncate s) = fb_bot s"
  by (simp_all add: core.defs)

lemma truncate_updates:
  "core.truncate (s\<lparr>rom_path := a\<rparr>) = (core.truncate s)\<lparr>rom_path := a\<rparr>"
  "core.truncate (s\<lparr>running := b\<rparr>) = (core.truncate s)\<lparr>running := b\<rparr>"
  "core.truncate (s\<lparr>frame := c\<rparr>) = (core.truncate s)\<lparr>frame := c\<rparr>"
  "core.truncate (s\<lparr>arm9 := d\<rparr>) = (core.truncate s)\<lparr>arm9 := d\<rparr>"
  "core.truncate (s\<lparr>arm7 := e\<rparr>) = (core.truncate s)\<lparr>arm7 := e\<rparr>"
  "core.truncate (s\<lparr>cpsr9 := f\<rparr>) = (core.truncate s)\<lparr>cpsr9 := f\<rparr>"
  "core.truncate (s\<lparr>cpsr7 := g\<rparr>) = (core.truncate s)\<lparr>cpsr7 := g\<rparr>"
  "core.truncate (s\<lparr>fb_top := h\<rparr>) = (core.truncate s)\<lparr>fb_top := h\<rparr>"
  "core.truncate (s\<lparr>fb_bot := i\<rparr>) = (core.truncate s)\<lparr>fb_bot := i\<rparr>"
  by (simp_all add: core.defs)

lemma truncate_extend: "core.truncate (core.extend t m) = t"
  by (cases t) (simp add: core.defs)

lemma truncate_load_rom:
  "EmulatorCore_load_rom (core.truncate s) path =
     (fst (EmulatorCore_load_rom s path), core.truncate (snd (EmulatorCore_load_rom s path)))"
  by (simp add: EmulatorCore_load_rom_def truncate_updates)

lemma truncate_reset:
  "EmulatorCore_reset (core.truncate s) = core.truncate (EmulatorCore_reset s)"
  by (simp add: EmulatorCore_reset_def truncate_updates)

lemma truncate_get_registers: "get_registers (core.truncate s) = get_registers s"
  by (simp add: get_registers_def truncate_fields)

lemma truncate_get_framebuffers: "get_framebuffers (core.truncate s) = get_framebuffers s"
  by (simp add: get_framebuffers_def truncate_fields)

lemma truncate_fake_registers:
  "fake_registers g (core.truncate s) =
     (core.truncate (fst (fake_registers g s)), snd (fake_registers g s))"
  by (simp add: fake_registers_def truncate_updates split: prod.splits)

lemma truncate_fake_pixel:
  "fake_pixel p1 p2 y x (core.truncate s) = map_sum id core.truncate (fake_pixel p1 p2 y x s)"
  by (simp add: fake_pixel_def truncate_fields truncate_updates split: sum.splits)

lemma truncate_fake_framebuffers:
  "fake_framebuffers (core.truncate s) = map_sum id core.truncate (fake_framebuffers s)"
  unfolding fake_framebuffers_def truncate_fields
  by (intro for_each_sim truncate_fake_pixel)

lemma truncate_run_frame:
  "EmulatorCore_run_frame g (core.truncate s) =
     map_sum id (\<lambda>(s', g'). (core.truncate s', g')) (EmulatorCore_run_frame g s)"
proof -
  obtain s1 g1 where r: "fake_registers g (s\<lparr>frame := frame s + 1\<rparr>) = (s1, g1)"
    by (cases "fake_registers g (s\<lparr>frame := frame s + 1\<rparr>)")
  have "fake_registers g ((core.truncate s)\<lparr>frame := frame (core.truncate s) + 1\<rparr>) =
          (core.truncate s1, g1)"
    using truncate_fake_registers [of g "s\<lparr>frame := frame s + 1\<rparr>"] r
    by (simp add: truncate_fields truncate_updates)
  then show ?thesis
    using r by (cases "fake_framebuffers s1")
      (simp_all add: EmulatorCore_run_frame_def truncate_fake_framebuffers)
qed

lemma truncate_call:
  "EmulatorCore_call c g (core.truncate s) =
     map_sum id (\<lambda>(r, s', g'). (r, core.truncate s', g')) (EmulatorCore_call c g s)"
proof (cases c)
  case Run_frame
  then show ?thesis
    by (cases "EmulatorCore_run_frame g s") (auto simp: truncate_run_frame)
qed (simp_all add: truncate_load_rom truncate_reset truncate_get_registers
      truncate_get_framebuffers split: prod.splits)

lemma fake_pixel_more:
  "fake_pixel p1 p2 y x s = Inr s' \<Longrightarrow> core.more s = m \<Longrightarrow> core.more s' = m"
  by (auto simp: fake_pixel_def split: sum.splits)

lemma fake_framebuffers_more:
  assumes "fake_framebuffers s = Inr s'"
  shows "core.more s' = core.more s"
proof -
  have row: "for_each [0..<FB_W] (fake_pixel p1 p2 y) t = Inr t' \<Longrightarrow> core.more t = m \<Longrightarrow>
      core.more t' = m" for p1 p2 y m and t t' :: "'a core_scheme"
    by (erule for_each_preserves [rotated]) (auto dest: fake_pixel_more)
  have "core.more s = core.more s \<Longrightarrow> core.more s' = core.more s"
    using assms unfolding fake_framebuffers_def
    by (rule for_each_preserves [rotated]) (auto dest: row)
  then show ?thesis by simp
qed

lemma call_more:
  assumes "EmulatorCore_call c g s = Inr (r, s', g')"
  shows "core.more s' = core.more s"
proof (cases c)
  case Run_frame
  obtain s1 g1 where r: "fake_registers g (s\<lparr>frame := frame s + 1\<rparr>) = (s1, g1)"
    by (cases "fake_registers g (s\<lparr>frame := frame s + 1\<rparr>)")
  from fake_registers_frame [OF r] have m1: "core.more s1 = core.more s" by simp
  from assms Run_frame r have "fake_framebuffers s1 = Inr s'"
    by (auto simp: EmulatorCore_run_frame_def split: sum.splits)
  from fake_framebuffers_more [OF this] m1 show ?thesis by simp
qed (use assms in \<open>auto simp: EmulatorCore_load_rom_def EmulatorCore_reset_def\<close>)

subsection \<open>The delegating core without a library\<close>

lemma try_candidates_none:
  "(\<forall>p\<in>set ps. cd p = Inl OSError) \<Longrightarrow> try_candidates cd ps = Inr None"
  by (induction ps) auto

lemma stub_call:
  fixes s :: "'l nogba_core"
  assumes "lib s = None"
  shows "NoGbaCore_call c w s =
     (case EmulatorCore_call c (rand w) s of
        Inl err \<Rightarrow> Inl err
      | Inr (r, s', g') \<Rightarrow> Inr (r, s', w\<lparr>rand := g'\<rparr>))"
  using assms
  by (cases c)
    (simp_all add: NoGbaCore_load_rom_def NoGbaCore_reset_def NoGbaCore_run_frame_def
      EmulatorCore_load_rom_def split: sum.splits prod.splits)

lemma stub_calls:
  fixes s :: "'l nogba_core"
  shows "lib s = None \<Longrightarrow>
     same_outcome w (NoGbaCore_calls cs w s) (EmulatorCore_calls cs (rand w) (core.truncate s))"
proof (induction cs arbitrary: w s)
  case Nil
  then show ?case by simp
next
  case (Cons c cs)
  show ?case
  proof (cases "EmulatorCore_call c (rand w) s")
    case (Inl err)
    then show ?thesis
      using Cons.prems by (simp add: stub_call truncate_call)
  next
    case (Inr v)
    obtain r s' g' where v: "v = (r, s', g')" by (cases v)
    have m: "lib s' = None"
      using call_more [OF Inr [unfolded v]] Cons.prems more_lib [of s' s] by simp
    have n: "NoGbaCore_call c w s = Inr (r, s', w\<lparr>rand := g'\<rparr>)"
      using Inr v Cons.prems by (simp add: stub_call)
    have e: "EmulatorCore_call c (rand w) (core.truncate s) = Inr (r, core.truncate s', g')"
      using Inr v by (simp add: truncate_call)
    from Cons.IH [OF m, of "w\<lparr>rand := g'\<rparr>"]
    have ih: "same_outcome (w\<lparr>rand := g'\<rparr>) (NoGbaCore_calls cs (w\<lparr>rand := g'\<rparr>) s')
        (EmulatorCore_calls cs g' (core.truncate s'))" by simp
    show ?thesis
    proof (cases "NoGbaCore_calls cs (w\<lparr>rand := g'\<rparr>) s'")
      case l: (Inl a)
      then show ?thesis
        using ih n e by (cases "EmulatorCore_calls cs g' (core.truncate s')") auto
    next
      case rr: (Inr a)
      obtain rs s2 w2 where a: "a = (rs, s2, w2)" by (cases a)
      show ?thesis
      proof (cases "EmulatorCore_calls cs g' (core.truncate s')")
        case (Inl b)
        then show ?thesis using ih rr by simp
      next
        case (Inr b)
        obtain rs' t2 g2 where b: "b = (rs', t2, g2)" by (cases b)
        show ?thesis using ih rr Inr a b n e by simp
      qed
    qed
  qed
qed

lemma load_library_none:
  assumes "\<forall>p\<in>set (candidates e). CDLL e p = Inl OSError"
  shows "load_library e out =
           (if list_all (stdout_encodes e) warn_not_found
            then Inr (None, out @ [warn_not_found]) else Inl UnicodeEncodeError)"
  using try_candidates_none [OF assms] by (simp add: load_library_def print_def)

lemma stub_init:
  assumes "\<forall>p\<in>set (candidates e). CDLL e p = Inl OSError"
    and "list_all (stdout_encodes e) warn_not_found"
  shows "\<exists>s. NoGbaCore_init e w = Inr (s, w\<lparr>stdout := stdout w @ [warn_not_found]\<rparr>) \<and>
           lib s = None \<and> core.truncate s = EmulatorCore_init"
proof -
  have "load_library e (stdout w) = Inr (None, stdout w @ [warn_not_found])"
    using load_library_none [OF assms(1)] assms(2) by simp
  then have "NoGbaCore_init e w =
      Inr ((core.extend EmulatorCore_init (nogba_core.fields None))\<lparr>lib := None\<rparr>,
           w\<lparr>stdout := stdout w @ [warn_not_found]\<rparr>)"
    by (simp add: NoGbaCore_init_def Let_def)
  moreover have "core.truncate ((core.extend EmulatorCore_init (nogba_core.fields None))
      \<lparr>lib := None\<rparr>) = EmulatorCore_init"
    by (simp add: core.defs EmulatorCore_init_def)
  ultimately show ?thesis by simp
qed

lemma stub_init_raises:
  assumes "\<forall>p\<in>set (candidates e). CDLL e p = Inl OSError"
    and "\<not> list_all (stdout_encodes e) warn_not_found"
  shows "NoGbaCore_init e w =
           Inl (UnicodeEncodeError, core.extend EmulatorCore_init (nogba_core.fields None), w)"
  using load_library_none [OF assms(1)] assms(2) by (simp add: NoGbaCore_init_def)

lemma NoGbaCore_init_returns:
  assumes "NoGbaCore_init e w = Inr (s0, w0)"
  shows "core.truncate s0 = EmulatorCore_init \<and> rand w0 = rand w \<and>
         (lib s0 = None \<longrightarrow> native w0 = native w)"
proof -
  have t: "core.truncate ((core.extend EmulatorCore_init (nogba_core.fields None))
      \<lparr>lib := h\<rparr>) = EmulatorCore_init" for h :: "'a cdll option"
    by (simp add: core.defs EmulatorCore_init_def)
  show ?thesis
    using assms t
    by (auto simp: NoGbaCore_init_def Let_def
        split: sum.splits prod.splits option.splits if_splits)
qed

section \<open>The claims\<close>

subsection \<open>The frame counter\<close>

text \<open>
  C1: on a core on which \<open>reset\<close> has just been called, \<open>N\<close> calls of \<open>run_frame\<close>
  return and leave the frame counter at exactly \<open>N\<close>, and every single call of
  \<open>run_frame\<close> returns and adds exactly 1 to it; for the synthetic core and for the
  delegating core, with or without a library. The framebuffers are taken to have the
  size every constructor gives them.
\<close>

theorem frame_counter_counts_steps:
  fixes s :: "'a core_scheme" and sn :: "'l nogba_core"
  assumes "fb_ok s" and "fb_ok sn"
  shows "(\<exists>s' g'. EmulatorCore_run_frames N g (EmulatorCore_reset s) = Inr (s', g') \<and>
            frame s' = int N) \<and>
         (\<exists>s' w'. NoGbaCore_run_frames N (snd (NoGbaCore_reset w sn)) (fst (NoGbaCore_reset w sn))
              = Inr (s', w') \<and> frame s' = int N) \<and>
         (\<exists>s' g'. EmulatorCore_run_frame g s = Inr (s', g') \<and> frame s' = frame s + 1) \<and>
         (\<exists>s' w'. NoGbaCore_run_frame w sn = Inr (s', w') \<and> frame s' = frame sn + 1)"
proof -
  have a: "fb_ok (EmulatorCore_reset s)" using assms(1) by (simp add: fb_ok_reset)
  have f0: "frame (EmulatorCore_reset s) = 0" by (simp add: EmulatorCore_reset_def)
  have 1: "\<exists>s' g'. EmulatorCore_run_frames N g (EmulatorCore_reset s) = Inr (s', g') \<and>
            frame s' = int N"
    using EmulatorCore_run_frames_ok [OF a, of N g] f0 by auto
  have r: "fst (NoGbaCore_reset w sn) = EmulatorCore_reset sn"
    by (simp add: NoGbaCore_reset_def)
  have b: "fb_ok (fst (NoGbaCore_reset w sn))" using assms(2) by (simp add: r fb_ok_reset)
  have g0: "frame (fst (NoGbaCore_reset w sn)) = 0" by (simp add: r EmulatorCore_reset_def)
  have 2: "\<exists>s' w'. NoGbaCore_run_frames N (snd (NoGbaCore_reset w sn))
              (fst (NoGbaCore_reset w sn)) = Inr (s', w') \<and> frame s' = int N"
    using NoGbaCore_run_frames_ok [OF b, of N "snd (NoGbaCore_reset w sn)"] g0 by auto
  have 3: "\<exists>s' g'. EmulatorCore_run_frame g s = Inr (s', g') \<and> frame s' = frame s + 1"
    using EmulatorCore_run_frame_ok [OF assms(1), of g] by blast
  have 4: "\<exists>s' w'. NoGbaCore_run_frame w sn = Inr (s', w') \<and> frame s' = frame sn + 1"
    using NoGbaCore_run_frame_ok [OF assms(2), of w] by blast
  from 1 2 3 4 show ?thesis by blast
qed

theorem frame_counter_counts_steps_witness:
  "fb_ok EmulatorCore_init \<and> fb_ok (demo_core (Some (demo_lib 0))) \<and>
   (\<exists>s' g'. EmulatorCore_run_frames 3 (rand demo_world) (EmulatorCore_reset EmulatorCore_init)
        = Inr (s', g') \<and> frame s' = 3) \<and>
   (\<exists>s' w'. NoGbaCore_run_frames 3
        (snd (NoGbaCore_reset demo_world (demo_core (Some (demo_lib 0)))))
        (fst (NoGbaCore_reset demo_world (demo_core (Some (demo_lib 0)))))
        = Inr (s', w') \<and> frame s' = 3) \<and>
   (\<exists>s' g'. EmulatorCore_run_frame (rand demo_world) EmulatorCore_init = Inr (s', g') \<and>
        frame s' = frame EmulatorCore_init + 1) \<and>
   (\<exists>s' w'. NoGbaCore_run_frame demo_world (demo_core (Some (demo_lib 0))) = Inr (s', w') \<and>
        frame s' = frame (demo_core (Some (demo_lib 0))) + 1)"
  using frame_counter_counts_steps [OF fb_ok_init fb_ok_demo_core,
      of 3 "rand demo_world" demo_world "Some (demo_lib 0)"]
    fb_ok_init fb_ok_demo_core [of "Some (demo_lib 0)"]
  by simp

subsection \<open>The pixel converter\<close>

text \<open>
  C2: for every 16-bit pixel \<open>p\<close> of a buffer, the converter yields
  \<open>(((p >> 11) & 0x1F) << 3, ((p >> 5) & 0x3F) << 2, (p & 0x1F) << 3)\<close>. Bit for bit:
  bits 3 to 7 of red are bits 11 to 15 of \<open>p\<close>, bits 2 to 7 of green are bits 5 to 10,
  bits 3 to 7 of blue are bits 0 to 4, in the same order; the low three bits of red and
  blue and the low two bits of green are zero; each channel fits in eight bits. In
  arithmetic the triple is \<open>(8 * (p div 2048 mod 32), 4 * (p div 32 mod 64), 8 * (p mod 32))\<close>.
  \<open>convert\<close> returns on a buffer of 256 * 192 pixels and puts the triple of pixel
  \<open>i\<close> at column \<open>i mod 256\<close> of row \<open>i div 256\<close>.
\<close>

theorem convert_pixel_fields:
  fixes p :: "16 word"
  assumes "length src = FB_W * FB_H"
  shows "(case convert_pixel (uint p) of (r, g, b) \<Rightarrow>
            (\<forall>i<5. bit r (i + 3) = bit p (i + 11)) \<and> (\<forall>i<3. \<not> bit r i) \<and> 0 \<le> r \<and> r < 256 \<and>
            (\<forall>i<6. bit g (i + 2) = bit p (i + 5)) \<and> (\<forall>i<2. \<not> bit g i) \<and> 0 \<le> g \<and> g < 256 \<and>
            (\<forall>i<5. bit b (i + 3) = bit p i) \<and> (\<forall>i<3. \<not> bit b i) \<and> 0 \<le> b \<and> b < 256) \<and>
         convert_pixel (uint p) =
           (8 * (uint p div 2048 mod 32), 4 * (uint p div 32 mod 64), 8 * (uint p mod 32)) \<and>
         (\<exists>img. convert src = Inr img \<and> im_size img = (FB_W, FB_H) \<and>
            (\<forall>i<FB_W * FB_H.
               getpixel img (i mod FB_W, i div FB_W) = Inr (convert_pixel (uint (src ! i)))))"
proof -
  obtain r g b where c: "convert_pixel (uint p) = (r, g, b)"
    by (cases "convert_pixel (uint p)")
  have r: "r = fst (convert_pixel (uint p))" and g: "g = fst (snd (convert_pixel (uint p)))"
    and b: "b = snd (snd (convert_pixel (uint p)))"
    using c by simp_all
  have 1: "(\<forall>i<5. bit r (i + 3) = bit p (i + 11)) \<and> (\<forall>i<3. \<not> bit r i) \<and> 0 \<le> r \<and> r < 256"
    unfolding r by (intro conjI allI impI convert_pixel_red)
  have 2: "(\<forall>i<6. bit g (i + 2) = bit p (i + 5)) \<and> (\<forall>i<2. \<not> bit g i) \<and> 0 \<le> g \<and> g < 256"
    unfolding g by (intro conjI allI impI convert_pixel_green)
  have 3: "(\<forall>i<5. bit b (i + 3) = bit p i) \<and> (\<forall>i<3. \<not> bit b i) \<and> 0 \<le> b \<and> b < 256"
    unfolding b by (intro conjI allI impI convert_pixel_blue)
  have 4: "\<exists>img. convert src = Inr img \<and> im_size img = (FB_W, FB_H) \<and>
            (\<forall>i<FB_W * FB_H.
               getpixel img (i mod FB_W, i div FB_W) = Inr (convert_pixel (uint (src ! i))))"
  proof -
    from convert_eq [OF assms] obtain img where i: "convert src = Inr img" by blast
    have "\<forall>i<FB_W * FB_H. im_size img = (FB_W, FB_H) \<and>
        getpixel img (i mod FB_W, i div FB_W) = Inr (convert_pixel (uint (src ! i)))"
      using convert_pixels [OF assms] i by auto
    moreover have "0 < FB_W * FB_H" by (simp add: FB_W_def FB_H_def)
    ultimately show ?thesis using i by blast
  qed
  from 1 2 3 4 c show ?thesis
    by (simp add: convert_pixel_arith [symmetric])
qed

theorem convert_pixel_fields_witness:
  "length (replicate (FB_W * FB_H) (0xABCD :: 16 word)) = FB_W * FB_H \<and>
   convert_pixel (uint (0xABCD :: 16 word)) = (168, 120, 104) \<and>
   bit (168 :: int) (4 + 3) = bit (0xABCD :: 16 word) (4 + 11) \<and> \<not> bit (168 :: int) 2 \<and>
   bit (120 :: int) (5 + 2) = bit (0xABCD :: 16 word) (5 + 5) \<and> \<not> bit (120 :: int) 1 \<and>
   bit (104 :: int) (0 + 3) = bit (0xABCD :: 16 word) 0 \<and> \<not> bit (104 :: int) 0 \<and>
   (\<exists>img. convert (replicate (FB_W * FB_H) 0xABCD) = Inr img \<and> im_size img = (FB_W, FB_H) \<and>
      getpixel img (300 mod FB_W, 300 div FB_W) = Inr (168, 120, 104))"
proof -
  have a: "length (replicate (FB_W * FB_H) (0xABCD :: 16 word)) = FB_W * FB_H" by simp
  have v: "convert_pixel (uint (0xABCD :: 16 word)) = (168, 120, 104)"
    by (simp add: convert_pixel_arith)
  have n: "(300 :: nat) < FB_W * FB_H" by (simp add: FB_W_def FB_H_def)
  note t = convert_pixel_fields [OF a, of "0xABCD"]
  from t have bits:
    "(\<forall>i<5. bit (168 :: int) (i + 3) = bit (0xABCD :: 16 word) (i + 11)) \<and>
     (\<forall>i<3. \<not> bit (168 :: int) i) \<and>
     (\<forall>i<6. bit (120 :: int) (i + 2) = bit (0xABCD :: 16 word) (i + 5)) \<and>
     (\<forall>i<2. \<not> bit (120 :: int) i) \<and>
     (\<forall>i<5. bit (104 :: int) (i + 3) = bit (0xABCD :: 16 word) i) \<and>
     (\<forall>i<3. \<not> bit (104 :: int) i)"
    unfolding v by simp
  from t obtain img where img: "convert (replicate (FB_W * FB_H) 0xABCD) = Inr img"
    "im_size img = (FB_W, FB_H)"
    "\<forall>i<FB_W * FB_H. getpixel img (i mod FB_W, i div FB_W) =
       Inr (convert_pixel (uint (replicate (FB_W * FB_H) (0xABCD :: 16 word) ! i)))"
    by blast
  from img(3) n have "getpixel img (300 mod FB_W, 300 div FB_W) = Inr (168, 120, 104)"
    using v by simp
  with img(1,2) have e: "\<exists>img. convert (replicate (FB_W * FB_H) 0xABCD) = Inr img \<and>
      im_size img = (FB_W, FB_H) \<and>
      getpixel img (300 mod FB_W, 300 div FB_W) = Inr (168, 120, 104)" by blast
  have "bit (168 :: int) (4 + 3) = bit (0xABCD :: 16 word) (4 + 11)" using bits by simp
  moreover have "\<not> bit (168 :: int) 2" using bits by simp
  moreover have "bit (120 :: int) (5 + 2) = bit (0xABCD :: 16 word) (5 + 5)" using bits by simp
  moreover have "\<not> bit (120 :: int) 1" using bits by simp
  moreover have "bit (104 :: int) (0 + 3) = bit (0xABCD :: 16 word) 0" using bits by simp
  moreover have "\<not> bit (104 :: int) 0" using bits by simp
  ultimately show ?thesis using a v e by blast
qed

subsection \<open>Loading a program\<close>

text \<open>
  C3, as stated, fails for the synthetic core and for the delegating core without a
  library: \<open>load_rom\<close> takes the path alone and reads no file, so what it does is the
  same where no file can be read. It returns \<open>True\<close> and overwrites \<open>rom_path\<close>,
  and leaves the world as it was.
\<close>

theorem stub_load_rom_accepts_any_path:
  "EmulatorCore_load_rom EmulatorCore_init (str ''/no/such/file.nds'') =
     (True, EmulatorCore_init\<lparr>rom_path := Some (str ''/no/such/file.nds'')\<rparr>) \<and>
   rom_path EmulatorCore_init = None \<and>
   NoGbaCore_load_rom demo_world (demo_core None) (str ''/no/such/file.nds'') =
     Inr (True, (demo_core None)\<lparr>rom_path := Some (str ''/no/such/file.nds'')\<rparr>, demo_world)"
  by (simp add: EmulatorCore_load_rom_def EmulatorCore_init_def NoGbaCore_load_rom_def
      demo_core_def core.defs nogba_core.defs)

text \<open>
  C3, amended: on a delegating core with a library, when the library's \<open>nogba_load_rom\<close>
  returns a nonzero code for the encoded path, \<open>load_rom\<close> returns \<open>False\<close> and leaves
  \<open>rom_path\<close>, and the rest of the object, as it was. The synthetic core, and the
  delegating core without a library, return \<open>True\<close> and store the path for every
  path, whatever it names and whether or not it has a UTF-8 encoding.
\<close>

theorem load_rom_failure:
  fixes s u :: "'l nogba_core" and t :: "'a core_scheme"
  assumes "lib s = Some L" and "encode_utf8 path = Inr bs"
    and "sint (fst (nogba_load_rom L bs (native w))) \<noteq> 0"
    and "lib u = None"
  shows "NoGbaCore_load_rom w s path =
           Inr (False, s, w\<lparr>native := snd (nogba_load_rom L bs (native w))\<rparr>) \<and>
         NoGbaCore_load_rom w u q = Inr (True, u\<lparr>rom_path := Some q\<rparr>, w) \<and>
         EmulatorCore_load_rom t q = (True, t\<lparr>rom_path := Some q\<rparr>)"
  using assms
  by (auto simp: NoGbaCore_load_rom_def EmulatorCore_load_rom_def split: prod.splits)

theorem load_rom_failure_witness:
  "lib (demo_core (Some (demo_lib 1))) = Some (demo_lib 1) \<and>
   encode_utf8 (str ''a.nds'') = Inr [0x61, 0x2E, 0x6E, 0x64, 0x73] \<and>
   sint (fst (nogba_load_rom (demo_lib 1) [0x61, 0x2E, 0x6E, 0x64, 0x73] (native demo_world))) \<noteq> 0 \<and>
   lib (demo_core None) = None \<and>
   encode_utf8 [0xD800] = Inl UnicodeEncodeError \<and>
   NoGbaCore_load_rom demo_world (demo_core (Some (demo_lib 1))) (str ''a.nds'') =
     Inr (False, demo_core (Some (demo_lib 1)),
          demo_world\<lparr>native := snd (nogba_load_rom (demo_lib 1) [0x61, 0x2E, 0x6E, 0x64, 0x73]
             (native demo_world))\<rparr>) \<and>
   NoGbaCore_load_rom demo_world (demo_core None) [0xD800] =
     Inr (True, (demo_core None)\<lparr>rom_path := Some [0xD800]\<rparr>, demo_world) \<and>
   EmulatorCore_load_rom EmulatorCore_init [0xD800] =
     (True, EmulatorCore_init\<lparr>rom_path := Some [0xD800]\<rparr>)"
proof -
  have a: "lib (demo_core (Some (demo_lib 1))) = Some (demo_lib 1)"
    by (simp add: demo_core_def core.defs nogba_core.defs)
  have b: "encode_utf8 (str ''a.nds'') = Inr [0x61, 0x2E, 0x6E, 0x64, 0x73]"
    by (simp add: str_def utf8_char_def)
  have c: "sint (fst (nogba_load_rom (demo_lib 1) [0x61, 0x2E, 0x6E, 0x64, 0x73]
             (native demo_world))) \<noteq> 0"
    by (simp add: demo_lib_def)
  have d: "lib (demo_core None) = None"
    by (simp add: demo_core_def core.defs nogba_core.defs)
  have e: "encode_utf8 [0xD800] = Inl UnicodeEncodeError"
    by (simp add: utf8_char_def)
  show ?thesis
    using load_rom_failure [OF a b c d, of "[0xD800]" EmulatorCore_init] a b c d e by blast
qed

subsection \<open>Synthetic framebuffers are a function of the frame counter\<close>

text \<open>
  C4: the synthetic framebuffers are a function of the frame counter alone. Two runs of
  \<open>_fake_framebuffers\<close> on cores with the same frame counter, whatever their registers,
  their previous framebuffers and their other fields, return and produce identical top
  and bottom framebuffers; so do two calls of \<open>run_frame\<close> with different states of the
  random generator. The function takes neither a clock nor the generator.
\<close>

theorem fake_framebuffers_deterministic:
  fixes s1 :: "'a core_scheme" and s2 :: "'b core_scheme"
  assumes "fb_ok s1" and "fb_ok s2" and "frame s1 = frame s2"
  shows "(\<exists>t1 t2. fake_framebuffers s1 = Inr t1 \<and> fake_framebuffers s2 = Inr t2 \<and>
            fb_top t1 = fb_top t2 \<and> fb_bot t1 = fb_bot t2) \<and>
         (\<exists>t1 h1 t2 h2. EmulatorCore_run_frame g1 s1 = Inr (t1, h1) \<and>
            EmulatorCore_run_frame g2 s2 = Inr (t2, h2) \<and>
            get_framebuffers t1 = get_framebuffers t2)"
proof -
  have "\<exists>t1 t2. fake_framebuffers s1 = Inr t1 \<and> fake_framebuffers s2 = Inr t2 \<and>
            fb_top t1 = fb_top t2 \<and> fb_bot t1 = fb_bot t2"
    using assms(3) by (simp add: fake_framebuffers_eq [OF assms(1)] fake_framebuffers_eq [OF assms(2)])
  moreover
  from EmulatorCore_run_frame_ok [OF assms(1), of g1]
  obtain t1 h1 where 1: "EmulatorCore_run_frame g1 s1 = Inr (t1, h1)"
    "fb_top t1 = band_image (c1 (frame s1 + 1)) (42, 54, 84)"
    "fb_bot t1 = band_image (c2 (frame s1 + 1)) (34, 34, 34)" by blast
  from EmulatorCore_run_frame_ok [OF assms(2), of g2]
  obtain t2 h2 where 2: "EmulatorCore_run_frame g2 s2 = Inr (t2, h2)"
    "fb_top t2 = band_image (c1 (frame s2 + 1)) (42, 54, 84)"
    "fb_bot t2 = band_image (c2 (frame s2 + 1)) (34, 34, 34)" by blast
  have "get_framebuffers t1 = get_framebuffers t2"
    using 1 2 assms(3) by (simp add: get_framebuffers_def)
  with 1(1) 2(1) have "\<exists>t1 h1 t2 h2. EmulatorCore_run_frame g1 s1 = Inr (t1, h1) \<and>
            EmulatorCore_run_frame g2 s2 = Inr (t2, h2) \<and>
            get_framebuffers t1 = get_framebuffers t2" by blast
  ultimately show ?thesis by blast
qed

theorem fake_framebuffers_deterministic_witness:
  "fb_ok (EmulatorCore_init\<lparr>frame := 4\<rparr>) \<and>
   fb_ok (EmulatorCore_init\<lparr>frame := 4, arm9 := replicate 16 9, cpsr7 := 0x13,
            fb_top := Image_new (FB_W, FB_H) (1, 2, 3)\<rparr>) \<and>
   frame (EmulatorCore_init\<lparr>frame := 4\<rparr>) =
     frame (EmulatorCore_init\<lparr>frame := 4, arm9 := replicate 16 9, cpsr7 := 0x13,
            fb_top := Image_new (FB_W, FB_H) (1, 2, 3)\<rparr>) \<and>
   (\<exists>t1 t2. fake_framebuffers (EmulatorCore_init\<lparr>frame := 4\<rparr>) = Inr t1 \<and>
      fake_framebuffers (EmulatorCore_init\<lparr>frame := 4, arm9 := replicate 16 9, cpsr7 := 0x13,
            fb_top := Image_new (FB_W, FB_H) (1, 2, 3)\<rparr>) = Inr t2 \<and>
      fb_top t1 = fb_top t2 \<and> fb_bot t1 = fb_bot t2) \<and>
   (\<exists>t1 h1 t2 h2.
      EmulatorCore_run_frame (\<lambda>n. n) (EmulatorCore_init\<lparr>frame := 4\<rparr>) = Inr (t1, h1) \<and>
      EmulatorCore_run_frame (\<lambda>n. 5 * n + 1)
        (EmulatorCore_init\<lparr>frame := 4, arm9 := replicate 16 9, cpsr7 := 0x13,
            fb_top := Image_new (FB_W, FB_H) (1, 2, 3)\<rparr>) = Inr (t2, h2) \<and>
      get_framebuffers t1 = get_framebuffers t2)"
proof -
  have a: "fb_ok (EmulatorCore_init\<lparr>frame := 4\<rparr>)"
    by (simp add: fb_ok_def EmulatorCore_init_def Image_new_def)
  have b: "fb_ok (EmulatorCore_init\<lparr>frame := 4, arm9 := replicate 16 9, cpsr7 := 0x13,
            fb_top := Image_new (FB_W, FB_H) (1, 2, 3)\<rparr>)"
    by (simp add: fb_ok_def EmulatorCore_init_def Image_new_def)
  have c: "frame (EmulatorCore_init\<lparr>frame := 4\<rparr>) =
     frame (EmulatorCore_init\<lparr>frame := 4, arm9 := replicate 16 9, cpsr7 := 0x13,
            fb_top := Image_new (FB_W, FB_H) (1, 2, 3)\<rparr>)"
    by simp
  show ?thesis
    using fake_framebuffers_deterministic [OF a b c, of "\<lambda>n. n" "\<lambda>n. 5 * n + 1"] a b c
    by blast
qed

subsection \<open>Loading the library\<close>

text \<open>
  C5 fails where \<open>sys.stdout\<close> cannot encode the warning, which holds U+2014: with
  \<open>OSError\<close> at each of the three candidate paths and an ASCII output stream,
  \<open>_load_library\<close> raises \<open>UnicodeEncodeError\<close> from its \<open>print\<close>, and so does
  the constructor. Where the stream can encode the warning the method returns \<open>None\<close>
  (\<open>load_library_none\<close>).
\<close>

theorem load_library_raises_on_ascii_stdout:
  "candidates ((demo_env (\<lambda>p. Inl OSError))\<lparr>stdout_encodes := ascii_encodes\<rparr>) =
     [str ''libnogba.so'', str ''/opt/emuds/nogba.dll'', str ''/opt/emuds/libnogba.so''] \<and>
   CDLL ((demo_env (\<lambda>p. Inl OSError))\<lparr>stdout_encodes := ascii_encodes\<rparr>)
     (str ''libnogba.so'') = Inl OSError \<and>
   CDLL ((demo_env (\<lambda>p. Inl OSError))\<lparr>stdout_encodes := ascii_encodes\<rparr>)
     (str ''/opt/emuds/nogba.dll'') = Inl OSError \<and>
   CDLL ((demo_env (\<lambda>p. Inl OSError))\<lparr>stdout_encodes := ascii_encodes\<rparr>)
     (str ''/opt/emuds/libnogba.so'') = Inl OSError \<and>
   load_library ((demo_env (\<lambda>p. Inl OSError))\<lparr>stdout_encodes := ascii_encodes\<rparr>) [] =
     Inl UnicodeEncodeError \<and>
   NoGbaCore_init ((demo_env (\<lambda>p. Inl OSError))\<lparr>stdout_encodes := ascii_encodes\<rparr>)
       demo_world =
     Inl (UnicodeEncodeError, demo_core None, demo_world)"
proof -
  let ?e = "(demo_env (\<lambda>p. Inl OSError))\<lparr>stdout_encodes := ascii_encodes\<rparr>"
  have c: "candidates ?e =
     [str ''libnogba.so'', str ''/opt/emuds/nogba.dll'', str ''/opt/emuds/libnogba.so'']"
    by (simp add: candidates_def demo_env_def str_def)
  have a: "\<forall>p\<in>set (candidates ?e). CDLL ?e p = Inl OSError"
    by (simp add: demo_env_def)
  have n: "\<not> list_all (stdout_encodes ?e) warn_not_found"
    by (simp add: warn_not_found_def ascii_encodes_def)
  have l: "load_library ?e [] = Inl UnicodeEncodeError"
    using load_library_none [OF a, of "[]"] n by simp
  have i: "NoGbaCore_init ?e demo_world = Inl (UnicodeEncodeError, demo_core None, demo_world)"
    using stub_init_raises [OF a n, of demo_world] by (simp add: demo_core_def)
  show ?thesis
    using c l i by (simp add: demo_env_def)
qed

subsection \<open>The bands of the synthetic framebuffers\<close>

text \<open>
  C6, as stated, fails: of the two colours that alternate in a framebuffer only one follows
  the frame counter. Row 8, in the second band, has the same colour in the top framebuffers
  of any two cores, and so in the bottom ones.
\<close>

theorem odd_bands_ignore_frame:
  "\<not> (\<exists>(s :: core) (s' :: core) t t'.
        fb_ok s \<and> fb_ok s' \<and> fake_framebuffers s = Inr t \<and> fake_framebuffers s' = Inr t' \<and>
        (getpixel (fb_top t) (0, 8) \<noteq> getpixel (fb_top t') (0, 8) \<or>
         getpixel (fb_bot t) (0, 8) \<noteq> getpixel (fb_bot t') (0, 8)))"
proof
  assume "\<exists>(s :: core) (s' :: core) t t'.
        fb_ok s \<and> fb_ok s' \<and> fake_framebuffers s = Inr t \<and> fake_framebuffers s' = Inr t' \<and>
        (getpixel (fb_top t) (0, 8) \<noteq> getpixel (fb_top t') (0, 8) \<or>
         getpixel (fb_bot t) (0, 8) \<noteq> getpixel (fb_bot t') (0, 8))"
  then obtain s s' :: core and t t' where ok: "fb_ok s" "fb_ok s'"
    and r: "fake_framebuffers s = Inr t" "fake_framebuffers s' = Inr t'"
    and d: "getpixel (fb_top t) (0, 8) \<noteq> getpixel (fb_top t') (0, 8) \<or>
            getpixel (fb_bot t) (0, 8) \<noteq> getpixel (fb_bot t') (0, 8)"
    by blast
  have x: "0 < FB_W" and y: "8 < FB_H" by (simp_all add: FB_W_def FB_H_def)
  from fake_framebuffers_pixels [OF ok(1) x y] r(1)
  have a: "getpixel (fb_top t) (0, 8) = Inr (42, 54, 84)"
          "getpixel (fb_bot t) (0, 8) = Inr (34, 34, 34)"
    by (simp_all add: banded_def)
  from fake_framebuffers_pixels [OF ok(2) x y] r(2)
  have b: "getpixel (fb_top t') (0, 8) = Inr (42, 54, 84)"
          "getpixel (fb_bot t') (0, 8) = Inr (34, 34, 34)"
    by (simp_all add: banded_def)
  from a b d show False by simp
qed

text \<open>
  C6, amended: every synthesized framebuffer is a pattern of bands eight rows high that
  alternates between exactly two colours. The colour of the even bands follows the frame
  counter (\<open>c1\<close> on top, \<open>c2\<close> at the bottom, each taking different values at frames 0
  and 1); the colour of the odd bands is fixed, (42, 54, 84) on top and (34, 34, 34) at
  the bottom, and differs from the other.
\<close>

theorem fake_framebuffers_bands:
  assumes "fb_ok s" and "x < FB_W" and "y < FB_H"
  shows "\<exists>t. fake_framebuffers s = Inr t \<and>
           getpixel (fb_top t) (x, y) =
             Inr (if (y div 8) mod 2 = 0 then c1 (frame s) else (42, 54, 84)) \<and>
           getpixel (fb_bot t) (x, y) =
             Inr (if (y div 8) mod 2 = 0 then c2 (frame s) else (34, 34, 34)) \<and>
           c1 (frame s) \<noteq> (42, 54, 84) \<and> c2 (frame s) \<noteq> (34, 34, 34) \<and>
           c1 0 \<noteq> c1 1 \<and> c2 0 \<noteq> c2 1"
proof -
  from fake_framebuffers_pixels [OF assms]
  obtain t where "fake_framebuffers s = Inr t"
    "getpixel (fb_top t) (x, y) = Inr (banded (c1 (frame s)) (42, 54, 84) y)"
    "getpixel (fb_bot t) (x, y) = Inr (banded (c2 (frame s)) (34, 34, 34) y)"
    by blast
  moreover have "c1 0 \<noteq> c1 1" "c2 0 \<noteq> c2 1" by (simp_all add: c1_def c2_def)
  ultimately show ?thesis
    using c1_not_fixed [of "frame s"] c2_not_fixed [of "frame s"]
    by (simp add: banded_def)
qed

theorem fake_framebuffers_bands_witness:
  "fb_ok (EmulatorCore_init\<lparr>frame := 3\<rparr>) \<and> 17 < FB_W \<and> 5 < FB_H \<and> 12 < FB_H \<and>
   (\<exists>t. fake_framebuffers (EmulatorCore_init\<lparr>frame := 3\<rparr>) = Inr t \<and>
        getpixel (fb_top t) (17, 5) = Inr (90, 50, 255) \<and>
        getpixel (fb_bot t) (17, 5) = Inr (255, 81, 80)) \<and>
   (\<exists>t. fake_framebuffers (EmulatorCore_init\<lparr>frame := 3\<rparr>) = Inr t \<and>
        getpixel (fb_top t) (17, 12) = Inr (42, 54, 84) \<and>
        getpixel (fb_bot t) (17, 12) = Inr (34, 34, 34))"
proof -
  have a: "fb_ok (EmulatorCore_init\<lparr>frame := 3\<rparr>)"
    by (simp add: fb_ok_def EmulatorCore_init_def Image_new_def)
  have x: "17 < FB_W" and y: "5 < FB_H" and y': "12 < FB_H"
    by (simp_all add: FB_W_def FB_H_def)
  show ?thesis
    using fake_framebuffers_bands [OF a x y] fake_framebuffers_bands [OF a x y'] a x y y'
    by (simp add: c1_def c2_def)
qed

subsection \<open>Reset\<close>

text \<open>
  C7: on a core whose \<open>rom_path\<close> is set, \<open>reset\<close> puts the frame counter at 0 and
  clears the running flag, and \<open>rom_path\<close> is still the loaded path; for the synthetic
  core and for the delegating core, with or without a library.
\<close>

theorem reset_keeps_rom_path:
  fixes s :: "'a core_scheme" and sn :: "'l nogba_core"
  assumes "rom_path s = Some p" and "rom_path sn = Some q"
  shows "frame (EmulatorCore_reset s) = 0 \<and> \<not> running (EmulatorCore_reset s) \<and>
         rom_path (EmulatorCore_reset s) = Some p \<and>
         frame (fst (NoGbaCore_reset w sn)) = 0 \<and> \<not> running (fst (NoGbaCore_reset w sn)) \<and>
         rom_path (fst (NoGbaCore_reset w sn)) = Some q"
  using assms by (simp add: EmulatorCore_reset_def NoGbaCore_reset_def)

theorem reset_keeps_rom_path_witness:
  "rom_path (snd (EmulatorCore_load_rom (EmulatorCore_init\<lparr>frame := 5, running := True\<rparr>)
       (str ''game.nds''))) = Some (str ''game.nds'') \<and>
   rom_path ((demo_core (Some (demo_lib 0)))\<lparr>rom_path := Some (str ''game.nds''), frame := 7\<rparr>)
     = Some (str ''game.nds'') \<and>
   frame (EmulatorCore_reset (snd (EmulatorCore_load_rom
       (EmulatorCore_init\<lparr>frame := 5, running := True\<rparr>) (str ''game.nds'')))) = 0 \<and>
   \<not> running (EmulatorCore_reset (snd (EmulatorCore_load_rom
       (EmulatorCore_init\<lparr>frame := 5, running := True\<rparr>) (str ''game.nds'')))) \<and>
   rom_path (EmulatorCore_reset (snd (EmulatorCore_load_rom
       (EmulatorCore_init\<lparr>frame := 5, running := True\<rparr>) (str ''game.nds''))))
     = Some (str ''game.nds'') \<and>
   frame (fst (NoGbaCore_reset demo_world
       ((demo_core (Some (demo_lib 0)))\<lparr>rom_path := Some (str ''game.nds''), frame := 7\<rparr>))) = 0 \<and>
   \<not> running (fst (NoGbaCore_reset demo_world
       ((demo_core (Some (demo_lib 0)))\<lparr>rom_path := Some (str ''game.nds''), frame := 7\<rparr>))) \<and>
   rom_path (fst (NoGbaCore_reset demo_world
       ((demo_core (Some (demo_lib 0)))\<lparr>rom_path := Some (str ''game.nds''), frame := 7\<rparr>)))
     = Some (str ''game.nds'')"
proof -
  have a: "rom_path (snd (EmulatorCore_load_rom (EmulatorCore_init\<lparr>frame := 5, running := True\<rparr>)
       (str ''game.nds''))) = Some (str ''game.nds'')"
    by (simp add: EmulatorCore_load_rom_def)
  have b: "rom_path ((demo_core (Some (demo_lib 0)))\<lparr>rom_path := Some (str ''game.nds''),
       frame := 7\<rparr>) = Some (str ''game.nds'')"
    by simp
  show ?thesis
    using reset_keeps_rom_path [OF a b, of demo_world] a b by blast
qed

subsection \<open>A library that fails to initialize\<close>

text \<open>
  C8: when a library was bound and its \<open>nogba_init\<close> returns a nonzero code, the
  constructor raises \<open>RuntimeError\<close>. At the \<open>raise\<close> the object is the base class's
  default state with the handle stored; of the library only \<open>nogba_init\<close> has run.
\<close>

theorem init_failure_raises:
  assumes "load_library e (stdout w) = Inr (Some L, out)"
    and "sint (fst (nogba_init L (native w))) \<noteq> 0"
  shows "\<exists>s. NoGbaCore_init e w =
             Inl (RuntimeError ''no$gba: initialization failed'', s,
                  w\<lparr>stdout := out, native := snd (nogba_init L (native w))\<rparr>) \<and>
           core.truncate s = EmulatorCore_init \<and> lib s = Some L"
proof -
  obtain rc l' where i: "nogba_init L (native w) = (rc, l')"
    by (cases "nogba_init L (native w)")
  let ?s = "(core.extend EmulatorCore_init (nogba_core.fields None))\<lparr>lib := Some L\<rparr>"
  have "NoGbaCore_init e w =
          Inl (RuntimeError ''no$gba: initialization failed'', ?s,
               w\<lparr>stdout := out, native := snd (nogba_init L (native w))\<rparr>)"
    using assms i by (simp add: NoGbaCore_init_def Let_def)
  moreover have "core.truncate ?s = EmulatorCore_init"
    by (simp add: core.defs EmulatorCore_init_def)
  moreover have "lib ?s = Some L" by simp
  ultimately show ?thesis by blast
qed

theorem init_failure_raises_witness:
  "load_library (demo_env (\<lambda>p. if p = str ''libnogba.so'' then Inr (demo_lib 1) else Inl OSError))
      (stdout demo_world) = Inr (Some (demo_lib 1), []) \<and>
   sint (fst (nogba_init (demo_lib 1) (native demo_world))) \<noteq> 0 \<and>
   (\<exists>s. NoGbaCore_init
          (demo_env (\<lambda>p. if p = str ''libnogba.so'' then Inr (demo_lib 1) else Inl OSError))
          demo_world =
        Inl (RuntimeError ''no$gba: initialization failed'', s,
             demo_world\<lparr>stdout := [],
               native := snd (nogba_init (demo_lib 1) (native demo_world))\<rparr>) \<and>
        core.truncate s = EmulatorCore_init \<and> lib s = Some (demo_lib 1))"
proof -
  have a: "load_library
      (demo_env (\<lambda>p. if p = str ''libnogba.so'' then Inr (demo_lib 1) else Inl OSError))
      (stdout demo_world) = Inr (Some (demo_lib 1), [])"
    by (simp add: load_library_def candidates_def demo_env_def demo_world_def str_def)
  have b: "sint (fst (nogba_init (demo_lib 1) (native demo_world))) \<noteq> 0"
    by (simp add: demo_lib_def)
  show ?thesis
    using init_failure_raises [OF a b] a b by blast
qed

subsection \<open>The register arrays\<close>

text \<open>
  C9: both register arrays have sixteen entries after either constructor, also where the
  delegating one raises, and every call of \<open>load_rom\<close>, \<open>reset\<close>, \<open>run_frame\<close>,
  \<open>get_registers\<close> and \<open>get_framebuffers\<close> on a core that has sixteen and
  framebuffers of the constructors' size returns a core that has both again. The one call
  that can raise is \<open>load_rom\<close> of the delegating core on a path that has no UTF-8
  encoding, before it assigns anything. The same holds after any sequence of calls.
\<close>

theorem registers_always_sixteen:
  fixes s :: "'a core_scheme" and sn :: "'l nogba_core"
  assumes "regs_ok s" and "fb_ok s" and "regs_ok sn" and "fb_ok sn"
  shows "regs_ok EmulatorCore_init \<and>
         (case NoGbaCore_init e w of
            Inl (err, s0, w0) \<Rightarrow> regs_ok s0
          | Inr (s0, w0) \<Rightarrow> regs_ok s0) \<and>
         (\<exists>r s' g'. EmulatorCore_call c g s = Inr (r, s', g') \<and> regs_ok s' \<and> fb_ok s') \<and>
         ((\<exists>r s' w'. NoGbaCore_call c w sn = Inr (r, s', w') \<and> regs_ok s' \<and> fb_ok s') \<or>
          (NoGbaCore_call c w sn = Inl UnicodeEncodeError \<and> (\<exists>path. c = Load_rom path))) \<and>
         length (fst (get_registers s)) = 16 \<and> length (fst (snd (get_registers s))) = 16 \<and>
         (\<exists>rs s' g'. EmulatorCore_calls cs g s = Inr (rs, s', g') \<and> regs_ok s') \<and>
         (\<forall>rs s' w'. NoGbaCore_calls cs w sn = Inr (rs, s', w') \<longrightarrow> regs_ok s')"
proof -
  have 1: "case NoGbaCore_init e w of
            Inl (err, s0, w0) \<Rightarrow> regs_ok s0
          | Inr (s0, w0) \<Rightarrow> regs_ok s0"
    using NoGbaCore_init_ok [of e w] by (auto split: sum.splits)
  have 2: "length (fst (get_registers s)) = 16 \<and> length (fst (snd (get_registers s))) = 16"
    using assms(1) by (simp add: get_registers_def regs_ok_def)
  have 3: "\<exists>rs s' g'. EmulatorCore_calls cs g s = Inr (rs, s', g') \<and> regs_ok s'"
    using EmulatorCore_calls_ok [OF assms(1,2), of cs g] by blast
  have 4: "\<forall>rs s' w'. NoGbaCore_calls cs w sn = Inr (rs, s', w') \<longrightarrow> regs_ok s'"
    using NoGbaCore_calls_ok [OF assms(3,4)] by blast
  from regs_ok_init 1 EmulatorCore_call_ok [OF assms(1,2), of c g]
    NoGbaCore_call_ok [OF assms(3,4), of c w] 2 3 4
  show ?thesis by blast
qed

theorem registers_always_sixteen_witness:
  "regs_ok EmulatorCore_init \<and> fb_ok EmulatorCore_init \<and>
   regs_ok (demo_core (Some (demo_lib 0))) \<and> fb_ok (demo_core (Some (demo_lib 0))) \<and>
   (\<exists>r s' g'. EmulatorCore_call Run_frame (rand demo_world) EmulatorCore_init = Inr (r, s', g') \<and>
      regs_ok s' \<and> fb_ok s') \<and>
   (\<exists>r s' w'. NoGbaCore_call Run_frame demo_world (demo_core (Some (demo_lib 0)))
        = Inr (r, s', w') \<and> regs_ok s' \<and> fb_ok s') \<and>
   (\<exists>rs s' g'. EmulatorCore_calls [Run_frame, Reset, Get_registers] (rand demo_world)
        EmulatorCore_init = Inr (rs, s', g') \<and> regs_ok s')"
proof -
  note t = registers_always_sixteen [OF regs_ok_init fb_ok_init
      regs_ok_demo_core [of "Some (demo_lib 0)"] fb_ok_demo_core [of "Some (demo_lib 0)"],
      of "demo_env (\<lambda>p. Inl OSError)" demo_world Run_frame "rand demo_world"
        "[Run_frame, Reset, Get_registers]"]
  from t have "\<exists>r s' w'. NoGbaCore_call Run_frame demo_world (demo_core (Some (demo_lib 0)))
        = Inr (r, s', w') \<and> regs_ok s' \<and> fb_ok s'"
    by blast
  with t show ?thesis
    using regs_ok_init fb_ok_init regs_ok_demo_core [of "Some (demo_lib 0)"]
      fb_ok_demo_core [of "Some (demo_lib 0)"]
    by blast
qed

subsection \<open>The delegating core without a library\<close>

text \<open>
  C10: a delegating core whose handle is \<open>None\<close> cannot be told from a synthetic core.
  Any sequence of calls on it ends as the same sequence does on its base-class part:
  the same error, or the same results, the same base-class state, the same draws taken
  from the random generator, the handle still \<open>None\<close> and the library and the output
  untouched. A core that the constructor returns with no handle starts in the base
  class's initial state, the generator and the library as they were, and so behaves from
  there as a new synthetic core does.
\<close>

theorem stub_mode_equals_synthetic_core:
  fixes s s0 :: "'l nogba_core"
  assumes "lib s = None" and "NoGbaCore_init e w = Inr (s0, w0)" and "lib s0 = None"
  shows "same_outcome w (NoGbaCore_calls cs w s)
           (EmulatorCore_calls cs (rand w) (core.truncate s)) \<and>
         core.truncate s0 = EmulatorCore_init \<and> rand w0 = rand w \<and> native w0 = native w \<and>
         same_outcome w0 (NoGbaCore_calls cs w0 s0)
           (EmulatorCore_calls cs (rand w) EmulatorCore_init)"
proof -
  from NoGbaCore_init_returns [OF assms(2)] assms(3)
  have i: "core.truncate s0 = EmulatorCore_init" "rand w0 = rand w" "native w0 = native w"
    by simp_all
  have "same_outcome w0 (NoGbaCore_calls cs w0 s0)
          (EmulatorCore_calls cs (rand w) EmulatorCore_init)"
    using stub_calls [OF assms(3), of w0 cs] i by simp
  with i stub_calls [OF assms(1), of w cs] show ?thesis by simp
qed

theorem stub_mode_equals_synthetic_core_witness:
  "lib (demo_core None) = None \<and>
   NoGbaCore_init (demo_env (\<lambda>p. Inl OSError)) demo_world =
     Inr (demo_core None, demo_world\<lparr>stdout := [warn_not_found]\<rparr>) \<and>
   NoGbaCore_calls [Load_rom (str ''a.nds''), Reset, Get_registers] demo_world (demo_core None) =
     Inr ([Ret_bool True, Ret_none, Ret_registers (replicate 16 0, replicate 16 0, 0x1F, 0x1F)],
          (demo_core None)\<lparr>rom_path := Some (str ''a.nds'')\<rparr>, demo_world) \<and>
   EmulatorCore_calls [Load_rom (str ''a.nds''), Reset, Get_registers] (rand demo_world)
       EmulatorCore_init =
     Inr ([Ret_bool True, Ret_none, Ret_registers (replicate 16 0, replicate 16 0, 0x1F, 0x1F)],
          EmulatorCore_init\<lparr>rom_path := Some (str ''a.nds'')\<rparr>, rand demo_world) \<and>
   same_outcome demo_world
     (NoGbaCore_calls [Load_rom (str ''a.nds''), Run_frame, Get_framebuffers] demo_world
        (demo_core None))
     (EmulatorCore_calls [Load_rom (str ''a.nds''), Run_frame, Get_framebuffers] (rand demo_world)
        (core.truncate (demo_core None))) \<and>
   same_outcome (demo_world\<lparr>stdout := [warn_not_found]\<rparr>)
     (NoGbaCore_calls [Load_rom (str ''a.nds''), Run_frame, Get_framebuffers]
        (demo_world\<lparr>stdout := [warn_not_found]\<rparr>) (demo_core None))
     (EmulatorCore_calls [Load_rom (str ''a.nds''), Run_frame, Get_framebuffers] (rand demo_world)
        EmulatorCore_init) \<and>
   (\<exists>rs t g. EmulatorCore_calls [Load_rom (str ''a.nds''), Run_frame, Get_framebuffers]
        (rand demo_world) EmulatorCore_init = Inr (rs, t, g))"
proof -
  have a: "lib (demo_core None) = None"
    by (simp add: demo_core_def core.defs nogba_core.defs)
  have c: "\<forall>p\<in>set (candidates (demo_env (\<lambda>p. Inl OSError))).
             CDLL (demo_env (\<lambda>p. Inl OSError)) p = Inl OSError"
    by (simp add: demo_env_def)
  have u: "list_all (stdout_encodes (demo_env (\<lambda>p. Inl OSError))) warn_not_found"
    by (simp add: demo_env_def warn_not_found_def utf8_encodes_def str_def)
  have "load_library (demo_env (\<lambda>p. Inl OSError)) (stdout demo_world) =
          Inr (None, [warn_not_found])"
    using load_library_none [OF c, of "stdout demo_world"] u by (simp add: demo_world_def)
  then have b: "NoGbaCore_init (demo_env (\<lambda>p. Inl OSError)) demo_world =
     Inr (demo_core None, demo_world\<lparr>stdout := [warn_not_found]\<rparr>)"
    by (simp add: NoGbaCore_init_def Let_def demo_core_def EmulatorCore_init_def
        core.defs nogba_core.defs)
  have d: "NoGbaCore_calls [Load_rom (str ''a.nds''), Reset, Get_registers] demo_world
       (demo_core None) =
     Inr ([Ret_bool True, Ret_none, Ret_registers (replicate 16 0, replicate 16 0, 0x1F, 0x1F)],
          (demo_core None)\<lparr>rom_path := Some (str ''a.nds'')\<rparr>, demo_world)"
    by (simp add: a NoGbaCore_load_rom_def NoGbaCore_reset_def EmulatorCore_load_rom_def
        EmulatorCore_reset_def get_registers_def)
      (simp add: demo_core_def EmulatorCore_init_def core.defs nogba_core.defs)
  have e: "EmulatorCore_calls [Load_rom (str ''a.nds''), Reset, Get_registers] (rand demo_world)
       EmulatorCore_init =
     Inr ([Ret_bool True, Ret_none, Ret_registers (replicate 16 0, replicate 16 0, 0x1F, 0x1F)],
          EmulatorCore_init\<lparr>rom_path := Some (str ''a.nds'')\<rparr>, rand demo_world)"
    by (simp add: EmulatorCore_load_rom_def EmulatorCore_reset_def get_registers_def
        EmulatorCore_init_def)
  have f: "\<exists>rs t g. EmulatorCore_calls [Load_rom (str ''a.nds''), Run_frame, Get_framebuffers]
        (rand demo_world) EmulatorCore_init = Inr (rs, t, g)"
    using EmulatorCore_calls_ok [OF regs_ok_init fb_ok_init,
        of "[Load_rom (str ''a.nds''), Run_frame, Get_framebuffers]" "rand demo_world"]
    by blast
  show ?thesis
    using stub_mode_equals_synthetic_core [OF a b a,
        of "[Load_rom (str ''a.nds''), Run_frame, Get_framebuffers]"] a b d e f
    by blast
qed

end
